theory Spec2Isabelle
  imports Main "HOL-Library.Sublist"
begin

section \<open>Configuration values\<close>

text \<open>
  \<^verbatim>\<open>init_cfg\<close> is an arbitrary Python value (annotated \<^verbatim>\<open>Union[dict, list[dict], None]\<close>).
  The values that can occur in it are modelled by value: \<^verbatim>\<open>None\<close>, strings, integers,
  class objects (by name), dictionaries with string keys (an association list: insertion
  order kept, first binding of a key wins) and lists.
\<close>

datatype pyv =
    PNone
  | PStr string
  | PInt int
  | PCls string
  | PDict "(string \<times> pyv) list"
  | PList "pyv list"

datatype error =
    AssertionError
  | TypeError
  | KeyError
  | AttributeError
  | RecursionError
  | DispatchError string

text \<open>Python truthiness, as used by \<^verbatim>\<open>if self.init_cfg:\<close>.\<close>

fun truthy :: "pyv \<Rightarrow> bool" where
  "truthy PNone = False"
| "truthy (PStr s) = (s \<noteq> [])"
| "truthy (PInt i) = (i \<noteq> 0)"
| "truthy (PCls c) = True"
| "truthy (PDict d) = (d \<noteq> [])"
| "truthy (PList xs) = (xs \<noteq> [])"

text \<open>
  \<^verbatim>\<open>cfg.get("type") in {"Pretrained", PretrainedInit}\<close>: the looked-up value is hashed for
  the set membership test, which raises \<^verbatim>\<open>TypeError\<close> for a dictionary or a list; a missing
  key gives \<^verbatim>\<open>None\<close>.
\<close>

fun is_pretrained :: "(string \<times> pyv) list \<Rightarrow> error + bool" where
  "is_pretrained d =
     (case map_of d ''type'' of
        None \<Rightarrow> Inr False
      | Some (PDict _) \<Rightarrow> Inl TypeError
      | Some (PList _) \<Rightarrow> Inl TypeError
      | Some v \<Rightarrow> Inr (v = PStr ''Pretrained'' \<or> v = PCls ''PretrainedInit''))"

text \<open>
  The loop \<^verbatim>\<open>for cfg in cfgs\<close> of \<^verbatim>\<open>init_weights\<close>, with the two accumulators
  \<^verbatim>\<open>other_cfgs\<close> and \<^verbatim>\<open>pretrained_cfgs\<close>; \<^verbatim>\<open>assert isinstance(cfg, dict)\<close> is the first
  statement of its body.
\<close>

fun split_loop :: "pyv list \<Rightarrow> pyv list \<Rightarrow> pyv list \<Rightarrow> error + (pyv list \<times> pyv list)" where
  "split_loop [] other_cfgs pretrained_cfgs = Inr (other_cfgs, pretrained_cfgs)"
| "split_loop (cfg # cfgs) other_cfgs pretrained_cfgs =
     (case cfg of
        PDict d \<Rightarrow>
          (case is_pretrained d of
             Inl e \<Rightarrow> Inl e
           | Inr True \<Rightarrow> split_loop cfgs other_cfgs (pretrained_cfgs @ [cfg])
           | Inr False \<Rightarrow> split_loop cfgs (other_cfgs @ [cfg]) pretrained_cfgs)
      | _ \<Rightarrow> Inl AssertionError)"

text \<open>\<^verbatim>\<open>cfgs = self.init_cfg if isinstance(self.init_cfg, list) else [self.init_cfg]\<close>\<close>

fun as_cfg_list :: "pyv \<Rightarrow> pyv list" where
  "as_cfg_list (PList xs) = xs"
| "as_cfg_list v = [v]"

definition split_init_cfg :: "pyv \<Rightarrow> error + (pyv list \<times> pyv list)" where
  "split_init_cfg init_cfg =
     (if truthy init_cfg then split_loop (as_cfg_list init_cfg) [] [] else Inr ([], []))"

section \<open>Modules, parameters and the mutable world\<close>

record param =
  pid :: nat
  pname :: string
  pshape :: string

text \<open>The attributes that \<^verbatim>\<open>BaseModule.__init__\<close> adds to a module.\<close>

record base_attrs =
  init_cfg :: pyv
  is_init :: bool

text \<open>
  A module of the tree: its identity, the name under which its parent registered it, its
  class name, the \<^verbatim>\<open>BaseModule\<close> attributes (\<open>None\<close> for a plain \<^verbatim>\<open>nn.Module\<close>, which has no
  \<^verbatim>\<open>init_weights\<close>), the attribute \<^verbatim>\<open>_params_init_info\<close> (\<open>None\<close> when the attribute is
  absent, otherwise the address of the shared dictionary), its own parameters and its
  children in registration order.
\<close>

datatype module = Module
  (mid: nat)
  (label: string)
  (cls: string)
  (base: "base_attrs option")
  (params_init_info: "nat option")
  (params: "param list")
  (children: "module list")

record 't entry =
  init_info :: string
  tmp_mean_value :: 't

type_synonym 't info_dict = "nat \<Rightarrow> 't entry option"

text \<open>
  What the initializers can read and write: the data of every parameter (by parameter
  identity) and the tracking dictionaries (by address).
\<close>

record 't store =
  tensors :: "nat \<Rightarrow> 't"
  dicts :: "nat \<Rightarrow> 't info_dict"

datatype handler = FileHandler | OtherHandler

datatype event =
    LogWarning string
  | LogDebug string pyv
  | LogInfo string
  | StreamWrite string
  | StreamFlush
  | Initialize nat "pyv list" "error option"
  | UpdateInitInfo nat string "error option"

record 't world =
  heap :: "'t store"
  next_dict :: nat
  handlers :: "handler list"
  trace :: "event list"

text \<open>
  The module \<^verbatim>\<open>.initialization\<close> (\<^verbatim>\<open>initialize\<close>, \<^verbatim>\<open>update_init_info\<close>, \<^verbatim>\<open>PretrainedInit\<close>) is
  not part of the sources; its two functions and \<^verbatim>\<open>Tensor.mean\<close> are parameters of the
  model. Each receives the module it is called on and the store, and returns the store it
  leaves behind together with the exception it raised, if any. Every call is recorded in
  the trace, with the identity of the module it was called on, its argument and its
  outcome.
\<close>

record 't ext =
  mean :: "'t \<Rightarrow> 't"
  initialize :: "module \<Rightarrow> pyv list \<Rightarrow> 't store \<Rightarrow> error option \<times> 't store"
  update_init_info :: "module \<Rightarrow> string \<Rightarrow> 't store \<Rightarrow> error option \<times> 't store"

definition emit :: "event \<Rightarrow> 't world \<Rightarrow> 't world" where
  "emit e w = w\<lparr>trace := trace w @ [e]\<rparr>"

definition call_initialize ::
  "'t ext \<Rightarrow> module \<Rightarrow> pyv list \<Rightarrow> 't world \<Rightarrow> error option \<times> 't world" where
  "call_initialize x m cfgs w =
     (let (e, s) = initialize x m cfgs (heap w)
      in (e, emit (Initialize (mid m) cfgs e) (w\<lparr>heap := s\<rparr>)))"

definition call_update_init_info ::
  "'t ext \<Rightarrow> module \<Rightarrow> string \<Rightarrow> 't world \<Rightarrow> error option \<times> 't world" where
  "call_update_init_info x m msg w =
     (let (e, s) = update_init_info x m msg (heap w)
      in (e, emit (UpdateInitInfo (mid m) msg e) (w\<lparr>heap := s\<rparr>)))"

section \<open>Traversals of \<^verbatim>\<open>nn.Module\<close>\<close>

text \<open>\<^verbatim>\<open>self.modules()\<close>: the module and its descendants, depth first, parents first.\<close>

fun modules :: "module \<Rightarrow> module list" where
  "modules (Module i l c b a ps cs) = Module i l c b a ps cs # concat (map modules cs)"

definition join_name :: "string \<Rightarrow> string \<Rightarrow> string" where
  "join_name pre n = (if pre = [] then n else pre @ ''.'' @ n)"

fun named_modules :: "string \<Rightarrow> module \<Rightarrow> (string \<times> module) list" where
  "named_modules pre (Module i l c b a ps cs) =
     (pre, Module i l c b a ps cs) #
     concat (map (\<lambda>ch. named_modules (join_name pre (label ch)) ch) cs)"

text \<open>Parameters already seen (by identity) are skipped, as \<^verbatim>\<open>remove_duplicate=True\<close> does.\<close>

fun remove_duplicate :: "nat list \<Rightarrow> (string \<times> param) list \<Rightarrow> (string \<times> param) list" where
  "remove_duplicate seen [] = []"
| "remove_duplicate seen ((n, p) # xs) =
     (if pid p \<in> set seen then remove_duplicate seen xs
      else (n, p) # remove_duplicate (pid p # seen) xs)"

definition named_parameters :: "module \<Rightarrow> (string \<times> param) list" where
  "named_parameters m =
     remove_duplicate []
       (concat (map (\<lambda>(pre, md). map (\<lambda>p. (join_name pre (pname p), p)) (params md))
                    (named_modules [] m)))"

text \<open>\<^verbatim>\<open>for m in self.modules(): m._params_init_info = ...\<close>\<close>

fun set_info :: "nat \<Rightarrow> module \<Rightarrow> module" where
  "set_info d (Module i l c b a ps cs) = Module i l c b (Some d) ps (map (set_info d) cs)"

text \<open>
  \<^verbatim>\<open>for m in self.modules(): del m._params_init_info\<close>; deleting an absent attribute raises
  \<^verbatim>\<open>AttributeError\<close> and leaves the modules after it as they are.
\<close>

fun del_info :: "module \<Rightarrow> error option \<times> module"
  and del_info_list :: "module list \<Rightarrow> error option \<times> module list" where
  "del_info (Module i l c b a ps cs) =
     (case a of
        None \<Rightarrow> (Some AttributeError, Module i l c b a ps cs)
      | Some _ \<Rightarrow> (let (e, cs') = del_info_list cs in (e, Module i l c b None ps cs')))"
| "del_info_list [] = (None, [])"
| "del_info_list (m # ms) =
     (let (e, m') = del_info m in
      if e \<noteq> None then (e, m' # ms)
      else (let (e2, ms') = del_info_list ms in (e2, m' # ms')))"

section \<open>\<^verbatim>\<open>BaseModule\<close>\<close>

definition has_init_weights :: "module \<Rightarrow> bool" where
  "has_init_weights m = (base m \<noteq> None)"

text \<open>\<^verbatim>\<open>getattr(target, "is_init", False)\<close>\<close>

definition get_is_init :: "module \<Rightarrow> bool" where
  "get_is_init m = (case base m of None \<Rightarrow> False | Some b \<Rightarrow> is_init b)"

fun set_is_init :: "bool \<Rightarrow> module \<Rightarrow> module" where
  "set_is_init v (Module i l c b a ps cs) =
     Module i l c (map_option (\<lambda>r. r\<lparr>is_init := v\<rparr>) b) a ps cs"

fun set_children :: "module list \<Rightarrow> module \<Rightarrow> module" where
  "set_children cs' (Module i l c b a ps cs) = Module i l c b a ps cs'"

definition unchanged_msg :: "string \<Rightarrow> string" where
  "unchanged_msg c = ''The value is unchanged before and after `init_weights` of '' @ c"

definition multiple_msg :: "string \<Rightarrow> string" where
  "multiple_msg c = c @ ''.init_weights() called multiple times.''"

definition user_defined_msg :: "string \<Rightarrow> string" where
  "user_defined_msg c = ''Initialized by user-defined init_weights in '' @ c"

definition report_line :: "string \<Rightarrow> string \<Rightarrow> string \<Rightarrow> string" where
  "report_line n shape info =
     [CHR 0x0A] @ n @ '' - '' @ shape @ '':'' @ [CHR 0x0A] @ info @ [CHR 0x0A]"

definition report_header :: string where
  "report_header = ''Name of parameter - Initialization information'' @ [CHR 0x0A]"

text \<open>
  Lines 49 to 61 of \<^verbatim>\<open>init_weights\<close>: a fresh dictionary, one entry per parameter of the
  tree rooted at \<^verbatim>\<open>self\<close>, and the dictionary shared with every module of that tree.
\<close>

definition install :: "'t ext \<Rightarrow> module \<Rightarrow> 't world \<Rightarrow> module \<times> 't world" where
  "install x m w =
     (let a = next_dict w;
          d = fold (\<lambda>(n, p) d.
                      d(pid p \<mapsto> \<lparr>init_info = unchanged_msg (cls m),
                                  tmp_mean_value = mean x (tensors (heap w) (pid p))\<rparr>))
                   (named_parameters m) Map.empty
      in (set_info a m,
          w\<lparr>heap := (heap w)\<lparr>dicts := (dicts (heap w))(a := d)\<rparr>, next_dict := Suc a\<rparr>))"

text \<open>\<^verbatim>\<open>self._params_init_info[param]["init_info"]\<close>\<close>

definition lookup_info :: "module \<Rightarrow> 't world \<Rightarrow> param \<Rightarrow> error + string" where
  "lookup_info m w p =
     (case params_init_info m of
        None \<Rightarrow> Inl AttributeError
      | Some a \<Rightarrow>
          (case dicts (heap w) a (pid p) of
             None \<Rightarrow> Inl KeyError
           | Some e \<Rightarrow> Inr (init_info e)))"

fun report :: "(string \<Rightarrow> event) \<Rightarrow> module \<Rightarrow> (string \<times> param) list \<Rightarrow> 't world
    \<Rightarrow> error option \<times> 't world" where
  "report out m [] w = (None, w)"
| "report out m ((n, p) # nps) w =
     (case lookup_info m w p of
        Inl e \<Rightarrow> (Some e, w)
      | Inr info \<Rightarrow> report out m nps (emit (out (report_line n (pshape p) info)) w))"

definition finalize_init :: "module \<Rightarrow> 't world \<Rightarrow> error option \<times> module \<times> 't world" where
  "finalize_init m w =
     (let (e, w1) =
            (if FileHandler \<in> set (handlers w) then
               (let (e0, w0) = report StreamWrite m (named_parameters m)
                                 (emit (StreamWrite report_header) w)
                in if e0 \<noteq> None then (e0, w0) else (None, emit StreamFlush w0))
             else report LogInfo m (named_parameters m) w)
      in if e \<noteq> None then (e, m, w1)
         else (let (e2, m') = del_info m in (e2, m', w1)))"

lemma size_set_info [simp]: "size (set_info d m) = size m"
  by (induction m) (simp add: size_list_conv_sum_list comp_def cong: map_cong)

lemma children_install: "children (fst (install x m w)) = map (set_info (next_dict w)) (children m)"
  by (cases m) (simp add: install_def Let_def)

lemma size_children_lt: "size_list size (children m) < size m"
  by (cases m) simp

text \<open>
  \<^verbatim>\<open>init_weights\<close> (lines 44 to 102) and its loop over \<^verbatim>\<open>self.children()\<close> (lines 87 to
  93). A call returns the exception it ended with, if any, the module as the call left it,
  and the world. \<^verbatim>\<open>unwrap_model\<close> is the identity on a module that is not wrapped for
  distributed training, the only modules of the model.
\<close>

function init_weights :: "'t ext \<Rightarrow> module \<Rightarrow> 't world \<Rightarrow> error option \<times> module \<times> 't world"
  and init_children :: "'t ext \<Rightarrow> module list \<Rightarrow> 't world \<Rightarrow> error option \<times> module list \<times> 't world"
  where
  "init_weights x m w =
     (case base m of
        None \<Rightarrow> (Some AttributeError, m, w)
      | Some b \<Rightarrow>
          (let is_top_level = (params_init_info m = None);
               (m1, w1) = (if is_top_level then install x m w else (m, w))
           in if is_init b then
                (let w2 = emit (LogWarning (multiple_msg (cls m1))) w1
                 in if is_top_level then finalize_init m1 w2 else (None, m1, w2))
              else
                (let w2 = (if truthy (init_cfg b) then emit (LogDebug (cls m1) (init_cfg b)) w1
                           else w1)
                 in case split_init_cfg (init_cfg b) of
                      Inl e \<Rightarrow> (Some e, m1, w2)
                    | Inr (other_cfgs, pretrained_cfgs) \<Rightarrow>
                        (let (e1, w3) = (if other_cfgs \<noteq> [] then call_initialize x m1 other_cfgs w2
                                         else (None, w2))
                         in if e1 \<noteq> None then (e1, m1, w3)
                            else
                              (let (e2, cs, w4) = init_children x (children m1) w3;
                                   m2 = set_children cs m1
                               in if e2 \<noteq> None then (e2, m2, w4)
                                  else
                                    (let (e3, w5) =
                                           (if pretrained_cfgs \<noteq> []
                                            then call_initialize x m2 pretrained_cfgs w4
                                            else (None, w4))
                                     in if e3 \<noteq> None then (e3, m2, w5)
                                        else
                                          (let m3 = set_is_init True m2
                                           in if is_top_level then finalize_init m3 w5
                                              else (None, m3, w5))))))))"
| "init_children x [] w = (None, [], w)"
| "init_children x (child # rest) w =
     (if has_init_weights child \<and> \<not> get_is_init child then
        (let (e, target, w1) = init_weights x child w
         in if e \<noteq> None then (e, target # rest, w1)
            else
              (let (e1, w2) = call_update_init_info x target (user_defined_msg (cls target)) w1
               in if e1 \<noteq> None then (e1, target # rest, w2)
                  else (let (e2, rest', w3) = init_children x rest w2
                        in (e2, target # rest', w3))))
      else (let (e2, rest', w1) = init_children x rest w
            in (e2, child # rest', w1)))"
  by pat_completeness auto

termination
proof (relation "measure (\<lambda>s. case s of Inl (x, m, w) \<Rightarrow> size m
                                        | Inr (x, ms, w) \<Rightarrow> size_list size ms)", goal_cases)
  case 1
  show ?case by simp
next
  case (2 x m w b is_top m1w m1 w1)
  have "m1 = m \<or> m1 = fst (install x m w)"
    using 2 by (cases "install x m w") (auto split: if_splits)
  then have "size_list size (children m1) = size_list size (children m)"
    by (auto simp: children_install size_list_conv_sum_list comp_def cong: map_cong)
  then show ?case
    using size_children_lt [of m] by simp
next
  case 3
  then show ?case by simp
next
  case 4
  then show ?case by simp
next
  case 5
  then show ?case by simp
qed

declare init_weights.simps [simp del]

section \<open>The phases of one call\<close>

text \<open>
  Names for the steps of \<^verbatim>\<open>init_weights\<close>, used to state what a call did: the detection of
  the top level with the installation of the tracking dictionary, the debug line, one call
  of \<^verbatim>\<open>initialize\<close> guarded by \<^verbatim>\<open>if cfgs:\<close>, and the exit through \<^verbatim>\<open>_finalize_init\<close> at the
  top level.
\<close>

definition entered :: "'t ext \<Rightarrow> module \<Rightarrow> 't world \<Rightarrow> module \<times> 't world" where
  "entered x m w = (if params_init_info m = None then install x m w else (m, w))"

definition debug_logged :: "base_attrs \<Rightarrow> module \<Rightarrow> 't world \<Rightarrow> 't world" where
  "debug_logged b m w = (if truthy (init_cfg b) then emit (LogDebug (cls m) (init_cfg b)) w else w)"

definition apply_cfgs :: "'t ext \<Rightarrow> module \<Rightarrow> pyv list \<Rightarrow> 't world \<Rightarrow> error option \<times> 't world" where
  "apply_cfgs x m cfgs w = (if cfgs \<noteq> [] then call_initialize x m cfgs w else (None, w))"

definition left :: "module \<Rightarrow> module \<Rightarrow> 't world \<Rightarrow> error option \<times> module \<times> 't world" where
  "left m m' w = (if params_init_info m = None then finalize_init m' w else (None, m', w))"

lemma init_weights_cases [consumes 1, case_names plain again split_fail std_fail child_fail ovr_fail finished]:
  assumes "init_weights x m w = (e, m', w')"
  obtains
    (plain) "base m = None" "e = Some AttributeError" "m' = m" "w' = w"
  | (again) b m1 w1 where "base m = Some b" "is_init b" "entered x m w = (m1, w1)"
      "left m m1 (emit (LogWarning (multiple_msg (cls m))) w1) = (e, m', w')"
  | (split_fail) b m1 w1 err where "base m = Some b" "\<not> is_init b" "entered x m w = (m1, w1)"
      "split_init_cfg (init_cfg b) = Inl err" "e = Some err" "m' = m1" "w' = debug_logged b m w1"
  | (std_fail) b m1 w1 other pre err w3 where "base m = Some b" "\<not> is_init b"
      "entered x m w = (m1, w1)" "split_init_cfg (init_cfg b) = Inr (other, pre)"
      "apply_cfgs x m1 other (debug_logged b m w1) = (Some err, w3)"
      "e = Some err" "m' = m1" "w' = w3"
  | (child_fail) b m1 w1 other pre w3 err cs where "base m = Some b" "\<not> is_init b"
      "entered x m w = (m1, w1)" "split_init_cfg (init_cfg b) = Inr (other, pre)"
      "apply_cfgs x m1 other (debug_logged b m w1) = (None, w3)"
      "init_children x (children m1) w3 = (Some err, cs, w')"
      "e = Some err" "m' = set_children cs m1"
  | (ovr_fail) b m1 w1 other pre w3 cs w4 err where "base m = Some b" "\<not> is_init b"
      "entered x m w = (m1, w1)" "split_init_cfg (init_cfg b) = Inr (other, pre)"
      "apply_cfgs x m1 other (debug_logged b m w1) = (None, w3)"
      "init_children x (children m1) w3 = (None, cs, w4)"
      "apply_cfgs x (set_children cs m1) pre w4 = (Some err, w')"
      "e = Some err" "m' = set_children cs m1"
  | (finished) b m1 w1 other pre w3 cs w4 w5 where "base m = Some b" "\<not> is_init b"
      "entered x m w = (m1, w1)" "split_init_cfg (init_cfg b) = Inr (other, pre)"
      "apply_cfgs x m1 other (debug_logged b m w1) = (None, w3)"
      "init_children x (children m1) w3 = (None, cs, w4)"
      "apply_cfgs x (set_children cs m1) pre w4 = (None, w5)"
      "left m (set_is_init True (set_children cs m1)) w5 = (e, m', w')"
proof (cases "base m")
  case None
  then have "e = Some AttributeError \<and> m' = m \<and> w' = w"
    using assms by (simp add: init_weights.simps [of x m w])
  then show ?thesis using None by (intro plain) simp_all
next
  case (Some b)
  obtain m1 w1 where en: "entered x m w = (m1, w1)" by (cases "entered x m w")
  have c1: "cls m1 = cls m"
    using en by (cases m) (auto simp: entered_def install_def Let_def split: if_splits)
  show ?thesis
  proof (cases "is_init b")
    case True
    have "init_weights x m w = left m m1 (emit (LogWarning (multiple_msg (cls m))) w1)"
      apply (subst init_weights.simps)
      using Some en c1 True
      apply (cases "params_init_info m")
       apply (auto simp add: entered_def left_def Let_def)
      done
    then have "left m m1 (emit (LogWarning (multiple_msg (cls m))) w1) = (e, m', w')"
      using assms by simp
    then show ?thesis using Some True en by (intro again)
  next
    case False
    show ?thesis
    proof (cases "split_init_cfg (init_cfg b)")
      case (Inl err)
      have "init_weights x m w = (Some err, m1, debug_logged b m w1)"
        apply (subst init_weights.simps)
        using Some en c1 False Inl
        apply (cases "params_init_info m")
         apply (auto simp add: entered_def debug_logged_def Let_def)
        done
      then have "e = Some err \<and> m' = m1 \<and> w' = debug_logged b m w1"
        using assms by simp
      then show ?thesis using Some False en Inl by (intro split_fail) simp_all
    next
      case (Inr p)
      obtain other pre where p: "p = (other, pre)" by (cases p)
      note sp = Inr [unfolded p]
      obtain e1 w3 where a1: "apply_cfgs x m1 other (debug_logged b m w1) = (e1, w3)"
        by (cases "apply_cfgs x m1 other (debug_logged b m w1)")
      obtain e2 cs w4 where ch: "init_children x (children m1) w3 = (e2, cs, w4)"
        by (cases "init_children x (children m1) w3")
      obtain e3 w5 where a2: "apply_cfgs x (set_children cs m1) pre w4 = (e3, w5)"
        by (cases "apply_cfgs x (set_children cs m1) pre w4")
      have unf: "init_weights x m w =
        (if e1 \<noteq> None then (e1, m1, w3)
         else if e2 \<noteq> None then (e2, set_children cs m1, w4)
         else if e3 \<noteq> None then (e3, set_children cs m1, w5)
         else left m (set_is_init True (set_children cs m1)) w5)"
        apply (subst init_weights.simps)
        using Some en c1 False sp a1 ch a2
        apply (cases "params_init_info m")
         apply (auto simp add: entered_def debug_logged_def apply_cfgs_def left_def Let_def)
        done
      show ?thesis
      proof (cases e1)
        case (Some err)
        then have "e = Some err \<and> m' = m1 \<and> w' = w3" using assms unf by simp
        then show ?thesis
          using \<open>base m = Some b\<close> False en sp a1 Some by (intro std_fail) simp_all
      next
        case None
        note e1 = None
        show ?thesis
        proof (cases e2)
          case (Some err)
          then have "e = Some err \<and> m' = set_children cs m1 \<and> w' = w4"
            using assms unf e1 by simp
          then show ?thesis
            using \<open>base m = Some b\<close> False en sp a1 ch e1 Some by (intro child_fail) simp_all
        next
          case None
          note e2 = None
          show ?thesis
          proof (cases e3)
            case (Some err)
            then have "e = Some err \<and> m' = set_children cs m1 \<and> w' = w5"
              using assms unf e1 e2 by simp
            then show ?thesis
              using \<open>base m = Some b\<close> False en sp a1 ch a2 e1 e2 Some
              by (intro ovr_fail) simp_all
          next
            case None
            then have "left m (set_is_init True (set_children cs m1)) w5 = (e, m', w')"
              using assms unf e1 e2 by simp
            then show ?thesis
              using \<open>base m = Some b\<close> False en sp a1 ch a2 e1 e2 None
              by (intro finished) simp_all
          qed
        qed
      qed
    qed
  qed
qed

lemma init_children_cases [consumes 1, case_names skipped target_fail update_fail visited]:
  assumes "init_children x (child # rest) w = (e, ms', w')"
  obtains
    (skipped) rest' where "\<not> (has_init_weights child \<and> \<not> get_is_init child)"
      "init_children x rest w = (e, rest', w')" "ms' = child # rest'"
  | (target_fail) err target where "has_init_weights child" "\<not> get_is_init child"
      "init_weights x child w = (Some err, target, w')" "e = Some err" "ms' = target # rest"
  | (update_fail) err target w1 where "has_init_weights child" "\<not> get_is_init child"
      "init_weights x child w = (None, target, w1)"
      "call_update_init_info x target (user_defined_msg (cls target)) w1 = (Some err, w')"
      "e = Some err" "ms' = target # rest"
  | (visited) target w1 w2 rest' where "has_init_weights child" "\<not> get_is_init child"
      "init_weights x child w = (None, target, w1)"
      "call_update_init_info x target (user_defined_msg (cls target)) w1 = (None, w2)"
      "init_children x rest w2 = (e, rest', w')" "ms' = target # rest'"
proof (cases "has_init_weights child \<and> \<not> get_is_init child")
  case False
  obtain e2 rest' w1 where r: "init_children x rest w = (e2, rest', w1)"
    by (cases "init_children x rest w")
  have "e = e2 \<and> ms' = child # rest' \<and> w' = w1"
    using assms False r by auto
  then show ?thesis using False r by (intro skipped) simp_all
next
  case True
  obtain e0 target w1 where iw: "init_weights x child w = (e0, target, w1)"
    by (cases "init_weights x child w")
  obtain e1 w2 where up: "call_update_init_info x target (user_defined_msg (cls target)) w1 = (e1, w2)"
    by (cases "call_update_init_info x target (user_defined_msg (cls target)) w1")
  obtain e2 rest' w3 where re: "init_children x rest w2 = (e2, rest', w3)"
    by (cases "init_children x rest w2")
  have unf: "init_children x (child # rest) w =
     (if e0 \<noteq> None then (e0, target # rest, w1)
      else if e1 \<noteq> None then (e1, target # rest, w2)
      else (e2, target # rest', w3))"
    using True iw up re by simp
  show ?thesis
  proof (cases e0)
    case (Some err)
    then have "e = Some err \<and> ms' = target # rest \<and> w' = w1" using assms unf by simp
    then show ?thesis using True iw Some by (intro target_fail) simp_all
  next
    case None
    note e0 = None
    show ?thesis
    proof (cases e1)
      case (Some err)
      then have "e = Some err \<and> ms' = target # rest \<and> w' = w2" using assms unf e0 by simp
      then show ?thesis using True iw up e0 Some by (intro update_fail) simp_all
    next
      case None
      then have "e = e2 \<and> ms' = target # rest' \<and> w' = w3" using assms unf e0 by simp
      then show ?thesis using True iw up re e0 None by (intro visited) simp_all
    qed
  qed
qed

lemma module_induct [case_names node]:
  assumes "\<And>m. (\<And>c. c \<in> set (children m) \<Longrightarrow> P c) \<Longrightarrow>
                 (\<And>c d. c \<in> set (children m) \<Longrightarrow> P (set_info d c)) \<Longrightarrow> P m"
  shows "P m"
proof (induction "size m" arbitrary: m rule: less_induct)
  case less
  have lt: "size c < size m" if "c \<in> set (children m)" for c
    using that by (cases m) (auto simp: less_Suc_eq_le size_list_estimation')
  show ?case
    by (rule assms) (use less lt in auto)
qed

section \<open>What a call may change in a module\<close>

fun evolves :: "module \<Rightarrow> module \<Rightarrow> bool" where
  "evolves (Module i l c b a ps cs) (Module i' l' c' b' a' ps' cs') =
     (i = i' \<and> l = l' \<and> c = c' \<and> ps = ps' \<and>
      rel_option (\<lambda>r r'. init_cfg r = init_cfg r' \<and> (is_init r \<longrightarrow> is_init r')) b b' \<and>
      list_all2 evolves cs cs')"

lemma evolves_refl: "evolves m m"
  by (induction m) (auto simp: list_all2_same option.rel_refl_strong)

lemma evolves_trans: "evolves a b \<Longrightarrow> evolves b c \<Longrightarrow> evolves a c"
proof (induction a b arbitrary: c rule: evolves.induct)
  case (1 i l c b a ps cs i' l' c' b' a' ps' cs' m3)
  obtain i3 l3 c3 b3 a3 ps3 cs3 where m3: "m3 = Module i3 l3 c3 b3 a3 ps3 cs3" by (cases m3)
  have l12: "list_all2 evolves cs cs'" and l23: "list_all2 evolves cs' cs3"
    using 1(2,3) unfolding m3 by simp_all
  have "list_all2 evolves cs cs3"
    unfolding list_all2_conv_all_nth
  proof (intro conjI allI impI)
    show "length cs = length cs3"
      using l12 l23 by (simp add: list_all2_lengthD)
  next
    fix k assume k: "k < length cs"
    then have k': "k < length cs'" using l12 by (simp add: list_all2_lengthD)
    show "evolves (cs ! k) (cs3 ! k)"
      using 1(1) [of "cs ! k" "cs' ! k" "cs3 ! k"] k k' l12 l23
      by (simp add: list_all2_nthD list_all2_nthD2)
  qed
  moreover have "rel_option (\<lambda>r r'. init_cfg r = init_cfg r' \<and> (is_init r \<longrightarrow> is_init r')) b b3"
    using 1(2,3) unfolding m3 by (cases b; cases b'; cases b3) auto
  ultimately show ?case using 1(2,3) unfolding m3 by simp
qed

lemma list_all2_evolves_trans:
  "list_all2 evolves xs ys \<Longrightarrow> list_all2 evolves ys zs \<Longrightarrow> list_all2 evolves xs zs"
  by (rule list_all2_trans [of evolves evolves evolves]) (auto intro: evolves_trans)

lemma evolves_set_info: "evolves m (set_info d m)"
  by (induction m) (auto simp: list_all2_map2 list_all2_same option.rel_refl_strong)

lemma evolves_del_info:
  "del_info m = (e, m') \<Longrightarrow> evolves m m'"
  "del_info_list ms = (e, ms') \<Longrightarrow> list_all2 evolves ms ms'"
proof (induction m and ms arbitrary: e m' and e ms' rule: del_info_del_info_list.induct)
  case (1 i l c b a ps cs)
  then show ?case
    by (auto simp: evolves_refl list_all2_same option.rel_refl_strong
        split: option.splits prod.splits)
next
  case 2
  then show ?case by simp
next
  case (3 m ms)
  then show ?case
    by (auto simp: evolves_refl list_all2_same split: prod.splits if_splits)
qed

lemma evolves_set_is_init: "evolves m (set_is_init True m)"
  by (cases m) (auto simp: evolves_refl list_all2_same option.rel_map option.rel_refl_strong)

lemma evolves_set_children: "list_all2 evolves (children m) cs \<Longrightarrow> evolves m (set_children cs m)"
  by (cases m) (auto simp: option.rel_refl_strong)

lemma report_heap: "report out m nps w = (e, w') \<Longrightarrow>
    heap w' = heap w \<and> handlers w' = handlers w \<and> next_dict w' = next_dict w"
  by (induction out m nps w rule: report.induct)
     (auto simp: emit_def split: sum.splits)

lemma finalize_init_cases [consumes 1, case_names report_fail deleted]:
  assumes "finalize_init m w = (e, m', w')"
  obtains
    (report_fail) err out0 w0 where "e = Some err" "m' = m"
      "report out0 m (named_parameters m) w0 = (Some err, w')"
  | (deleted) "del_info m = (e, m')"
proof -
  define r where "r = (if FileHandler \<in> set (handlers w) then
               (let (e0, w0) = report StreamWrite m (named_parameters m)
                                 (emit (StreamWrite report_header) w)
                in if e0 \<noteq> None then (e0, w0) else (None, emit StreamFlush w0))
             else report LogInfo m (named_parameters m) w)"
  obtain e1 w1 where r: "r = (e1, w1)" by (cases r)
  show ?thesis
  proof (cases e1)
    case (Some err)
    have "\<exists>out0 w0. report out0 m (named_parameters m) w0 = (Some err, w1)"
      using r Some unfolding r_def by (auto split: if_splits prod.splits)
    moreover have "e = Some err \<and> m' = m \<and> w' = w1"
      using assms r Some unfolding finalize_init_def r_def [symmetric] by simp
    ultimately show ?thesis using report_fail by blast
  next
    case None
    then have "del_info m = (e, m')"
      using assms r unfolding finalize_init_def r_def [symmetric]
      by (auto split: prod.splits)
    then show ?thesis by (rule deleted)
  qed
qed

lemma evolves_finalize_init: "finalize_init m w = (e, m', w') \<Longrightarrow> evolves m m'"
  by (cases rule: finalize_init_cases) (auto simp: evolves_refl evolves_del_info)

lemma entered_cases [consumes 1, case_names nested top]:
  assumes "entered x m w = (m1, w1)"
  obtains
    (nested) d where "params_init_info m = Some d" "m1 = m" "w1 = w"
  | (top) "params_init_info m = None" "m1 = set_info (next_dict w) m" "install x m w = (m1, w1)"
  using assms by (cases "params_init_info m") (auto simp: entered_def install_def Let_def)

lemma evolves_entered: "entered x m w = (m1, w1) \<Longrightarrow> evolves m m1"
  by (cases rule: entered_cases) (auto simp: evolves_refl evolves_set_info)

lemma evolves_left: "left m m2 w = (e, m', w') \<Longrightarrow> evolves m2 m'"
  by (auto simp: left_def evolves_refl evolves_finalize_init split: if_splits)

lemma children_set_info: "children (set_info d m) = map (set_info d) (children m)"
  by (cases m) simp

lemma entered_children:
  assumes "entered x m w = (m1, w1)" and "c \<in> set (children m1)"
    and "\<And>c. c \<in> set (children m) \<Longrightarrow> P c"
    and "\<And>c d. c \<in> set (children m) \<Longrightarrow> P (set_info d c)"
  shows "P c"
  using assms by (cases rule: entered_cases) (auto simp: children_set_info)

lemma init_children_evolves_aux:
  assumes "\<And>c w e c' w'. c \<in> set ms \<Longrightarrow> init_weights x c w = (e, c', w') \<Longrightarrow> evolves c c'"
  shows "init_children x ms w = (e, ms', w') \<Longrightarrow> list_all2 evolves ms ms'"
  using assms
proof (induction ms arbitrary: w e ms' w')
  case Nil
  then show ?case by simp
next
  case (Cons child rest)
  from Cons.prems(1) show ?case
  proof (cases rule: init_children_cases)
    case (skipped rest')
    then show ?thesis using Cons.IH [of w e rest' w'] Cons.prems(2) by (simp add: evolves_refl)
  next
    case (target_fail err target)
    then show ?thesis using Cons.prems(2) [of child w] by (simp add: list_all2_same evolves_refl)
  next
    case (update_fail err target w1)
    then show ?thesis using Cons.prems(2) [of child w] by (simp add: list_all2_same evolves_refl)
  next
    case (visited target w1 w2 rest')
    then show ?thesis
      using Cons.prems(2) [of child w] Cons.IH [of w2 e rest' w'] Cons.prems(2) by simp
  qed
qed

lemma init_weights_evolves: "init_weights x m w = (e, m', w') \<Longrightarrow> evolves m m'"
proof (induction m arbitrary: x w e m' w' rule: module_induct)
  case (node m)
  have kids: "list_all2 evolves (children m1) cs"
    if en: "entered x m w = (m1, w1)" and ch: "init_children x (children m1) w3 = (e2, cs, w4)"
    for m1 w1 w3 e2 cs w4
  proof (rule init_children_evolves_aux [OF _ ch])
    fix c w0 e0 c' w0'
    assume c: "c \<in> set (children m1)" and r: "init_weights x c w0 = (e0, c', w0')"
    show "evolves c c'"
      using entered_children [OF en c, where
          P = "\<lambda>c. \<forall>w0 e0 c' w0'. init_weights x c w0 = (e0, c', w0') \<longrightarrow> evolves c c'"]
        node.IH r by blast
  qed
  from node.prems show ?case
  proof (cases rule: init_weights_cases)
    case plain
    then show ?thesis by (simp add: evolves_refl)
  next
    case (again b m1 w1)
    then show ?thesis by (blast intro: evolves_trans evolves_entered evolves_left)
  next
    case (split_fail b m1 w1 err)
    then show ?thesis by (simp add: evolves_entered)
  next
    case (std_fail b m1 w1 other pre err w3)
    then show ?thesis by (simp add: evolves_entered)
  next
    case (child_fail b m1 w1 other pre w3 err cs)
    then show ?thesis
      using kids [of m1 w1 w3 "Some err" cs w']
      by (auto intro: evolves_trans evolves_entered evolves_set_children)
  next
    case (ovr_fail b m1 w1 other pre w3 cs w4 err)
    then show ?thesis
      using kids [of m1 w1 w3 None cs w4]
      by (auto intro: evolves_trans evolves_entered evolves_set_children)
  next
    case (finished b m1 w1 other pre w3 cs w4 w5)
    have "evolves m m1" using finished by (simp add: evolves_entered)
    moreover have "evolves m1 (set_children cs m1)"
      using kids [of m1 w1 w3 None cs w4] finished by (simp add: evolves_set_children)
    moreover have "evolves (set_children cs m1) (set_is_init True (set_children cs m1))"
      by (rule evolves_set_is_init)
    moreover have "evolves (set_is_init True (set_children cs m1)) m'"
      using finished by (simp add: evolves_left)
    ultimately show ?thesis by (blast intro: evolves_trans)
  qed
qed

lemma list_all2_concat_map:
  "list_all2 (\<lambda>x y. list_all2 P (f x) (g y)) xs ys \<Longrightarrow>
   list_all2 P (concat (map f xs)) (concat (map g ys))"
  by (induction xs ys rule: list_all2_induct) (auto intro: list_all2_appendI)

lemma evolves_modules:
  "evolves m m' \<Longrightarrow>
   list_all2 (\<lambda>a b. mid a = mid b \<and> (get_is_init a \<longrightarrow> get_is_init b)) (modules m) (modules m')"
proof (induction m m' rule: evolves.induct)
  case (1 i l c b a ps cs i' l' c' b' a' ps' cs')
  have "list_all2 (\<lambda>x y. list_all2 (\<lambda>a b. mid a = mid b \<and> (get_is_init a \<longrightarrow> get_is_init b))
          (modules x) (modules y)) cs cs'"
  proof (rule list_all2_all_nthI)
    have la: "list_all2 evolves cs cs'"
      using 1(2) by simp
    show "length cs = length cs'"
      using la by (rule list_all2_lengthD)
    fix k assume "k < length cs"
    then show "list_all2 (\<lambda>a b. mid a = mid b \<and> (get_is_init a \<longrightarrow> get_is_init b))
        (modules (cs ! k)) (modules (cs' ! k))"
      using 1(1) [of "cs ! k" "cs' ! k"] la
      by (simp add: list_all2_nthD list_all2_lengthD)
  qed
  then have "list_all2 (\<lambda>a b. mid a = mid b \<and> (get_is_init a \<longrightarrow> get_is_init b))
          (concat (map modules cs)) (concat (map modules cs'))"
    by (rule list_all2_concat_map)
  moreover have "get_is_init (Module i l c b a ps cs) \<longrightarrow> get_is_init (Module i' l' c' b' a' ps' cs')"
    using 1(2) by (cases b; cases b') (auto simp: get_is_init_def)
  ultimately show ?case using 1(2) by simp
qed

text \<open>
  The modules of the tree, parents first, before and after: the same modules in the same
  places, and every module that was initialized still is.
\<close>

definition flags_kept :: "module \<Rightarrow> module \<Rightarrow> bool" where
  "flags_kept m m' =
     list_all2 (\<lambda>a b. mid a = mid b \<and> (get_is_init a \<longrightarrow> get_is_init b)) (modules m) (modules m')"

section \<open>The rules of a node\<close>













section \<open>The tracking dictionary on the modules of a tree\<close>

text \<open>
  \<open>all_info v m\<close>: the attribute \<^verbatim>\<open>_params_init_info\<close> is \<open>v\<close> on every module of the tree \<open>m\<close>
  (\<open>None\<close>: absent everywhere). \<open>clear_info m\<close> is the tree \<open>m\<close> with the attribute absent
  everywhere, which is what the loop of lines 125 and 126 leaves when every module has it.
\<close>

definition all_info :: "nat option \<Rightarrow> module \<Rightarrow> bool" where
  "all_info v m = (\<forall>d\<in>set (modules m). params_init_info d = v)"

fun clear_info :: "module \<Rightarrow> module" where
  "clear_info (Module i l c b a ps cs) = Module i l c b None ps (map clear_info cs)"

lemma all_info_Module:
  "all_info v (Module i l c b a ps cs) = (a = v \<and> (\<forall>c\<in>set cs. all_info v c))"
  by (auto simp: all_info_def)

lemma all_info_children: "all_info v m \<Longrightarrow> c \<in> set (children m) \<Longrightarrow> all_info v c"
  by (cases m) (simp add: all_info_Module)

lemma all_info_root: "all_info v m \<Longrightarrow> params_init_info m = v"
  by (cases m) (simp add: all_info_Module)

lemma all_info_set_info: "all_info (Some d) (set_info d m)"
  by (induction m) (simp add: all_info_Module)

lemma all_info_clear_info: "all_info None (clear_info m)"
  by (induction m) (simp add: all_info_Module)

lemma all_info_set_is_init: "all_info v (set_is_init f m) = all_info v m"
  by (cases m) (simp add: all_info_Module)

lemma all_info_set_children:
  "all_info v (set_children cs m) = (params_init_info m = v \<and> (\<forall>c\<in>set cs. all_info v c))"
  by (cases m) (simp add: all_info_Module)

lemma del_info_all_info:
  "all_info (Some a) m \<Longrightarrow> del_info m = (None, clear_info m)"
  "(\<forall>c\<in>set ms. all_info (Some a) c) \<Longrightarrow> del_info_list ms = (None, map clear_info ms)"
  by (induction m and ms rule: del_info_del_info_list.induct)
     (auto simp: all_info_Module)

lemma flags_clear_info: "map get_is_init (modules (clear_info m)) = map get_is_init (modules m)"
  by (induction m) (auto simp: get_is_init_def map_concat comp_def intro!: arg_cong [where f = concat])

lemma mids_clear_info: "map mid (modules (clear_info m)) = map mid (modules m)"
  by (induction m) (auto simp: map_concat comp_def intro!: arg_cong [where f = concat])

lemma trace_emit [simp]: "trace (emit ev w) = trace w @ [ev]"
  and heap_emit [simp]: "heap (emit ev w) = heap w"
  and next_dict_emit [simp]: "next_dict (emit ev w) = next_dict w"
  and handlers_emit [simp]: "handlers (emit ev w) = handlers w"
  by (simp_all add: emit_def)

lemma install_world:
  "install x m w = (m1, w1) \<Longrightarrow>
     m1 = set_info (next_dict w) m \<and> trace w1 = trace w \<and> handlers w1 = handlers w \<and>
     next_dict w1 = Suc (next_dict w) \<and> tensors (heap w1) = tensors (heap w)"
  by (auto simp: install_def Let_def)

text \<open>
  A top-level call is the installation, the same call on the tree that now carries the
  dictionary (where it is no longer top-level), and \<^verbatim>\<open>_finalize_init\<close> if that call returned.
\<close>

lemma init_weights_top:
  assumes "base m \<noteq> None" "params_init_info m = None"
  shows "init_weights x m w =
     (case install x m w of (m1, w1) \<Rightarrow>
        (case init_weights x m1 w1 of (e, m2, w2) \<Rightarrow>
           if e \<noteq> None then (e, m2, w2) else finalize_init m2 w2))"
proof -
  obtain b where b: "base m = Some b" using assms(1) by auto
  obtain m1 w1 where i: "install x m w = (m1, w1)" by (cases "install x m w")
  have m1: "m1 = set_info (next_dict w) m" using i by (simp add: install_world)
  obtain i0 l c b0 a ps cs0 where m: "m = Module i0 l c b0 a ps cs0" by (cases m)
  have p: "params_init_info m1 = Some (next_dict w)" "base m1 = Some b" "cls m1 = cls m"
    using b unfolding m1 m by simp_all
  show ?thesis
  proof (cases "is_init b")
    case True
    have "init_weights x m w = finalize_init m1 (emit (LogWarning (multiple_msg (cls m))) w1)"
      apply (subst init_weights.simps)
      using b i p True assms(2) apply (simp add: Let_def)
      done
    moreover have "init_weights x m1 w1 = (None, m1, emit (LogWarning (multiple_msg (cls m))) w1)"
      apply (subst init_weights.simps)
      using p True apply (simp add: Let_def)
      done
    ultimately show ?thesis using i by simp
  next
    case False
    show ?thesis
    proof (cases "split_init_cfg (init_cfg b)")
      case (Inl err)
      have "init_weights x m w = (Some err, m1, debug_logged b m w1)"
        apply (subst init_weights.simps)
        using b i p False Inl assms(2) apply (simp add: Let_def debug_logged_def)
        done
      moreover have "init_weights x m1 w1 = (Some err, m1, debug_logged b m w1)"
        apply (subst init_weights.simps)
        using p False Inl apply (simp add: Let_def debug_logged_def)
        done
      ultimately show ?thesis using i by simp
    next
      case (Inr pr)
      obtain other pre where pr: "pr = (other, pre)" by (cases pr)
      note sp = Inr [unfolded pr]
      obtain e1 w3 where a1: "apply_cfgs x m1 other (debug_logged b m w1) = (e1, w3)"
        by (cases "apply_cfgs x m1 other (debug_logged b m w1)")
      obtain e2 cs w4 where ch: "init_children x (children m1) w3 = (e2, cs, w4)"
        by (cases "init_children x (children m1) w3")
      obtain e3 w5 where a2: "apply_cfgs x (set_children cs m1) pre w4 = (e3, w5)"
        by (cases "apply_cfgs x (set_children cs m1) pre w4")
      have t: "init_weights x m w =
        (if e1 \<noteq> None then (e1, m1, w3)
         else if e2 \<noteq> None then (e2, set_children cs m1, w4)
         else if e3 \<noteq> None then (e3, set_children cs m1, w5)
         else finalize_init (set_is_init True (set_children cs m1)) w5)"
        apply (subst init_weights.simps)
        using b i p False sp a1 ch a2 assms(2)
        apply (auto simp add: Let_def debug_logged_def apply_cfgs_def)
        done
      have n: "init_weights x m1 w1 =
        (if e1 \<noteq> None then (e1, m1, w3)
         else if e2 \<noteq> None then (e2, set_children cs m1, w4)
         else if e3 \<noteq> None then (e3, set_children cs m1, w5)
         else (None, set_is_init True (set_children cs m1), w5))"
        apply (subst init_weights.simps)
        using p False sp a1 ch a2
        apply (auto simp add: Let_def debug_logged_def apply_cfgs_def)
        done
      show ?thesis by (simp add: i t n)
    qed
  qed
qed

section \<open>Calls below the top level\<close>

lemma nested_cases [consumes 2, case_names no_base warned bad_cfg std_raised child_raised
    ovr_raised completed]:
  assumes "init_weights x m w = (e, m', w')" and "params_init_info m = Some a"
  obtains
    (no_base) "base m = None" "e = Some AttributeError" "m' = m" "w' = w"
  | (warned) b where "base m = Some b" "is_init b" "e = None" "m' = m"
      "w' = emit (LogWarning (multiple_msg (cls m))) w"
  | (bad_cfg) b err where "base m = Some b" "\<not> is_init b"
      "split_init_cfg (init_cfg b) = Inl err" "e = Some err" "m' = m" "w' = debug_logged b m w"
  | (std_raised) b other pre err where "base m = Some b" "\<not> is_init b"
      "split_init_cfg (init_cfg b) = Inr (other, pre)"
      "apply_cfgs x m other (debug_logged b m w) = (Some err, w')" "e = Some err" "m' = m"
  | (child_raised) b other pre w3 err cs where "base m = Some b" "\<not> is_init b"
      "split_init_cfg (init_cfg b) = Inr (other, pre)"
      "apply_cfgs x m other (debug_logged b m w) = (None, w3)"
      "init_children x (children m) w3 = (Some err, cs, w')"
      "e = Some err" "m' = set_children cs m"
  | (ovr_raised) b other pre w3 cs w4 err where "base m = Some b" "\<not> is_init b"
      "split_init_cfg (init_cfg b) = Inr (other, pre)"
      "apply_cfgs x m other (debug_logged b m w) = (None, w3)"
      "init_children x (children m) w3 = (None, cs, w4)"
      "apply_cfgs x (set_children cs m) pre w4 = (Some err, w')"
      "e = Some err" "m' = set_children cs m"
  | (completed) b other pre w3 cs w4 where "base m = Some b" "\<not> is_init b"
      "split_init_cfg (init_cfg b) = Inr (other, pre)"
      "apply_cfgs x m other (debug_logged b m w) = (None, w3)"
      "init_children x (children m) w3 = (None, cs, w4)"
      "apply_cfgs x (set_children cs m) pre w4 = (None, w')"
      "e = None" "m' = set_is_init True (set_children cs m)"
  using assms(1)
proof (cases rule: init_weights_cases)
  case plain
  then show ?thesis by (intro no_base)
next
  case (again b m1 w1)
  then have "m1 = m \<and> w1 = w" using assms(2) by (simp add: entered_def)
  then have "e = None \<and> m' = m \<and> w' = emit (LogWarning (multiple_msg (cls m))) w"
    using again(4) assms(2) by (auto simp add: left_def)
  then show ?thesis using again(1,2) by (intro warned) simp_all
next
  case (split_fail b m1 w1 err)
  then have "m1 = m \<and> w1 = w" using assms(2) by (simp add: entered_def)
  then show ?thesis using split_fail by (intro bad_cfg) simp_all
next
  case (std_fail b m1 w1 other pre err w3)
  then have "m1 = m \<and> w1 = w" using assms(2) by (simp add: entered_def)
  then show ?thesis using std_fail by (intro std_raised) simp_all
next
  case (child_fail b m1 w1 other pre w3 err cs)
  then have "m1 = m \<and> w1 = w" using assms(2) by (simp add: entered_def)
  then show ?thesis using child_fail by (intro child_raised) simp_all
next
  case (ovr_fail b m1 w1 other pre w3 cs w4 err)
  then have "m1 = m \<and> w1 = w" using assms(2) by (simp add: entered_def)
  then show ?thesis using ovr_fail by (intro ovr_raised) simp_all
next
  case (finished b m1 w1 other pre w3 cs w4 w5)
  then have mw: "m1 = m \<and> w1 = w" using assms(2) by (simp add: entered_def)
  have "e = None \<and> m' = set_is_init True (set_children cs m) \<and> w' = w5"
    using finished(8) mw assms(2) by (auto simp add: left_def)
  then show ?thesis using finished mw by (intro completed) simp_all
qed

lemma apply_cfgs_world:
  "apply_cfgs x m cfgs w = (e, w') \<Longrightarrow>
     next_dict w' = next_dict w \<and> handlers w' = handlers w \<and>
     (\<exists>t. trace w' = trace w @ t \<and> (t = [] \<and> cfgs = [] \<and> e = None \<or>
           t = [Initialize (mid m) cfgs e] \<and> cfgs \<noteq> []))"
  by (auto simp: apply_cfgs_def call_initialize_def Let_def split: if_splits prod.splits)

lemma call_update_world:
  "call_update_init_info x m msg w = (e, w') \<Longrightarrow>
     next_dict w' = next_dict w \<and> handlers w' = handlers w \<and>
     trace w' = trace w @ [UpdateInitInfo (mid m) msg e]"
  by (auto simp: call_update_init_info_def Let_def split: prod.splits)

lemma debug_logged_world [simp]:
  "next_dict (debug_logged b m w) = next_dict w"
  "handlers (debug_logged b m w) = handlers w"
  "heap (debug_logged b m w) = heap w"
  by (simp_all add: debug_logged_def)

lemma nested_children_aux:
  assumes H: "\<And>c w e c' w'. c \<in> S \<Longrightarrow> all_info (Some a) c \<Longrightarrow> init_weights x c w = (e, c', w') \<Longrightarrow>
             all_info (Some a) c' \<and> next_dict w' = next_dict w \<and> handlers w' = handlers w"
  shows "set ms \<subseteq> S \<Longrightarrow> \<forall>c\<in>set ms. all_info (Some a) c \<Longrightarrow>
     init_children x ms w = (e, ms', w') \<Longrightarrow>
     (\<forall>c\<in>set ms'. all_info (Some a) c) \<and> next_dict w' = next_dict w \<and> handlers w' = handlers w"
proof (induction ms arbitrary: w e ms' w')
  case Nil
  then show ?case by simp
next
  case (Cons child rest)
  have ih: "init_children x rest w0 = (e0, r0, w0') \<Longrightarrow>
     (\<forall>c\<in>set r0. all_info (Some a) c) \<and> next_dict w0' = next_dict w0 \<and> handlers w0' = handlers w0"
    for w0 e0 r0 w0'
    using Cons.IH [of w0 e0 r0 w0'] Cons.prems(1,2) by simp
  have hd: "init_weights x child w0 = (e0, c0, w0') \<Longrightarrow>
     all_info (Some a) c0 \<and> next_dict w0' = next_dict w0 \<and> handlers w0' = handlers w0"
    for w0 e0 c0 w0'
    using H [of child w0 e0 c0 w0'] Cons.prems(1,2) by simp
  from Cons.prems(3) show ?case
  proof (cases rule: init_children_cases)
    case (skipped rest')
    then show ?thesis using ih [of w e rest' w'] Cons.prems(2) by simp
  next
    case (target_fail err target)
    then show ?thesis using hd [of w "Some err" target w'] Cons.prems(2) by simp
  next
    case (update_fail err target w1)
    then show ?thesis
      using hd [of w None target w1] Cons.prems(2)
        call_update_world [of x target "user_defined_msg (cls target)" w1 "Some err" w']
      by simp
  next
    case (visited target w1 w2 rest')
    then show ?thesis
      using hd [of w None target w1] ih [of w2 e rest' w']
        call_update_world [of x target "user_defined_msg (cls target)" w1 None w2]
      by simp
  qed
qed

lemma nested_all_info:
  "all_info (Some a) m \<Longrightarrow> init_weights x m w = (e, m', w') \<Longrightarrow>
     all_info (Some a) m' \<and> next_dict w' = next_dict w \<and> handlers w' = handlers w"
proof (induction m arbitrary: w e m' w' rule: module_induct)
  case (node m)
  have root: "params_init_info m = Some a"
    using node.prems(1) by (rule all_info_root)
  have kids: "(\<forall>c\<in>set cs. all_info (Some a) c) \<and> next_dict w4 = next_dict w3 \<and> handlers w4 = handlers w3"
    if ch: "init_children x (children m) w3 = (e2, cs, w4)" for w3 e2 cs w4
  proof (rule nested_children_aux [where S = "set (children m)", OF _ _ _ ch])
    show "\<forall>c\<in>set (children m). all_info (Some a) c"
      using node.prems(1) by (auto intro: all_info_children)
  next
    fix c w0 e0 c' w0'
    assume "c \<in> set (children m)" "all_info (Some a) c" "init_weights x c w0 = (e0, c', w0')"
    then show "all_info (Some a) c' \<and> next_dict w0' = next_dict w0 \<and> handlers w0' = handlers w0"
      using node.IH(1) by blast
  qed simp
  from node.prems(2) root show ?case
  proof (cases rule: nested_cases)
    case no_base
    then show ?thesis using node.prems(1) by simp
  next
    case (warned b)
    then show ?thesis using node.prems(1) by simp
  next
    case (bad_cfg b err)
    then show ?thesis using node.prems(1) by simp
  next
    case (std_raised b other pre err)
    then show ?thesis
      using node.prems(1) apply_cfgs_world [of x m other "debug_logged b m w" "Some err" w'] by simp
  next
    case (child_raised b other pre w3 err cs)
    then show ?thesis
      using root kids [of w3 "Some err" cs w']
        apply_cfgs_world [of x m other "debug_logged b m w" None w3]
      by (simp add: all_info_set_children)
  next
    case (ovr_raised b other pre w3 cs w4 err)
    then show ?thesis
      using root kids [of w3 None cs w4]
        apply_cfgs_world [of x m other "debug_logged b m w" None w3]
        apply_cfgs_world [of x "set_children cs m" pre w4 "Some err" w']
      by (simp add: all_info_set_children)
  next
    case (completed b other pre w3 cs w4)
    then show ?thesis
      using root kids [of w3 None cs w4]
        apply_cfgs_world [of x m other "debug_logged b m w" None w3]
        apply_cfgs_world [of x "set_children cs m" pre w4 None w']
      by (simp add: all_info_set_children all_info_set_is_init)
  qed
qed

section \<open>Installation and report\<close>

text \<open>
  Observers of the trace, and the events of a report in which every parameter still has the
  description that the installation by a module of class \<open>c\<close> gave it: through the stream
  of the first \<^verbatim>\<open>FileHandler\<close> if there is one, otherwise through \<^verbatim>\<open>logger.info\<close>.
\<close>

fun is_initialize :: "event \<Rightarrow> bool" where
  "is_initialize (Initialize i cfgs e) = True"
| "is_initialize _ = False"

fun is_warning :: "event \<Rightarrow> bool" where
  "is_warning (LogWarning s) = True"
| "is_warning _ = False"

definition report_events :: "handler list \<Rightarrow> string \<Rightarrow> (string \<times> param) list \<Rightarrow> event list" where
  "report_events hs c nps =
     (if FileHandler \<in> set hs then
        StreamWrite report_header #
        map (\<lambda>(n, p). StreamWrite (report_line n (pshape p) (unchanged_msg c))) nps @ [StreamFlush]
      else map (\<lambda>(n, p). LogInfo (report_line n (pshape p) (unchanged_msg c))) nps)"

lemma install_fold:
  "fold (\<lambda>(n, p) d. d(pid p \<mapsto> E (pid p))) nps d0 =
     (\<lambda>q. if q \<in> pid ` snd ` set nps then Some (E q) else d0 q)"
  by (induction nps arbitrary: d0) (auto simp: fun_eq_iff)

lemma install_dict:
  assumes "install x m w = (m1, w1)"
  shows "dicts (heap w1) (next_dict w) =
     (\<lambda>q. if q \<in> pid ` snd ` set (named_parameters m)
          then Some \<lparr>init_info = unchanged_msg (cls m), tmp_mean_value = mean x (tensors (heap w) q)\<rparr>
          else None)"
proof -
  have "dicts (heap w1) (next_dict w) =
     fold (\<lambda>(n, p) d. d(pid p \<mapsto> \<lparr>init_info = unchanged_msg (cls m),
                                  tmp_mean_value = mean x (tensors (heap w) (pid p))\<rparr>))
       (named_parameters m) Map.empty"
    using assms by (auto simp: install_def Let_def)
  then show ?thesis
    by (simp add: install_fold [where E = "\<lambda>q. \<lparr>init_info = unchanged_msg (cls m),
          tmp_mean_value = mean x (tensors (heap w) q)\<rparr>"])
qed

lemma remove_duplicate_pids:
  "pid ` snd ` set (remove_duplicate seen xs) = pid ` snd ` set xs - set seen"
  by (induction seen xs rule: remove_duplicate.induct) auto

lemma named_modules_snd: "snd ` set (named_modules pre m) = set (modules m)"
proof (induction m arbitrary: pre)
  case (Module i l c b a ps cs)
  have "(\<Union>ch\<in>set cs. snd ` set (named_modules (join_name pre (label ch)) ch)) =
        (\<Union>ch\<in>set cs. set (modules ch))"
    using Module by simp
  then show ?case by (simp add: image_UN)
qed

lemma named_parameters_pids:
  "pid ` snd ` set (named_parameters m) = pid ` (\<Union>d\<in>set (modules m). set (params d))"
proof -
  have "snd ` set (concat (map (\<lambda>(pre, md). map (\<lambda>p. (join_name pre (pname p), p)) (params md))
                    (named_modules [] m))) =
        (\<Union>d\<in>snd ` set (named_modules [] m). set (params d))"
    by (force simp: image_iff)
  then show ?thesis
    by (simp add: named_parameters_def remove_duplicate_pids named_modules_snd)
qed

lemma named_modules_set_info:
  "named_modules pre (set_info a m) = map (\<lambda>(n, md). (n, set_info a md)) (named_modules pre m)"
proof (induction m arbitrary: pre)
  case (Module i l c b a0 ps cs)
  have l: "label (set_info a ch) = label ch" for ch by (cases ch) simp
  show ?case
    using Module by (simp add: map_concat comp_def l cong: map_cong)
qed

lemma params_set_info [simp]: "params (set_info a m) = params m"
  by (cases m) simp

lemma named_parameters_set_info: "named_parameters (set_info a m) = named_parameters m"
  by (simp add: named_parameters_def named_modules_set_info comp_def case_prod_unfold)

lemma report_ok:
  assumes "params_init_info m = Some a"
  shows "\<forall>(n, p)\<in>set nps. \<exists>en. dicts (heap w) a (pid p) = Some en \<and> init_info en = c \<Longrightarrow>
     report out m nps w =
       (None, w\<lparr>trace := trace w @ map (\<lambda>(n, p). out (report_line n (pshape p) c)) nps\<rparr>)"
proof (induction nps arbitrary: w)
  case Nil
  then show ?case by simp
next
  case (Cons np nps)
  obtain n p where np: "np = (n, p)" by (cases np)
  obtain en where en: "dicts (heap w) a (pid p) = Some en" "init_info en = c"
    using Cons.prems np by auto
  have "report out m (np # nps) w = report out m nps (emit (out (report_line n (pshape p) c)) w)"
    using assms en np by (simp add: lookup_info_def)
  also have "\<dots> = (None, (emit (out (report_line n (pshape p) c)) w)
      \<lparr>trace := trace (emit (out (report_line n (pshape p) c)) w) @
         map (\<lambda>(n, p). out (report_line n (pshape p) c)) nps\<rparr>)"
    using Cons.prems by (intro Cons.IH) (simp add: np)
  finally show ?case by (simp add: np emit_def)
qed

lemma report_trace:
  "report out m nps w = (e, w') \<Longrightarrow> \<exists>t. trace w' = trace w @ t \<and> set t \<subseteq> range out"
proof (induction out m nps w rule: report.induct)
  case (1 out m w)
  then show ?case by simp
next
  case (2 out m n p nps w)
  show ?case
  proof (cases "lookup_info m w p")
    case (Inl err)
    then show ?thesis using 2(2) by simp
  next
    case (Inr info)
    then obtain t where "trace w' = trace (emit (out (report_line n (pshape p) info)) w) @ t"
        "set t \<subseteq> range out"
      using 2 by auto
    then show ?thesis by auto
  qed
qed

lemma finalize_init_world:
  assumes "finalize_init m w = (e, m', w')"
  shows "heap w' = heap w \<and> next_dict w' = next_dict w \<and> handlers w' = handlers w \<and>
     (\<exists>t. trace w' = trace w @ t \<and> filter is_initialize t = [] \<and> filter is_warning t = [])"
proof -
  have r: "heap w1 = heap w0 \<and> next_dict w1 = next_dict w0 \<and> handlers w1 = handlers w0 \<and>
     (\<exists>t. trace w1 = trace w0 @ t \<and> filter is_initialize t = [] \<and> filter is_warning t = [])"
    if rp0: "report out m nps w0 = (e0, w1)" and o: "out = StreamWrite \<or> out = LogInfo"
    for out nps w0 e0 w1
  proof -
    obtain t where t: "trace w1 = trace w0 @ t" "set t \<subseteq> range out"
      using report_trace [OF rp0] by auto
    have "\<forall>ev\<in>set t. \<not> is_initialize ev \<and> \<not> is_warning ev"
      using t(2) o by auto
    then have "filter is_initialize t = [] \<and> filter is_warning t = []"
      by (simp add: filter_empty_conv)
    then show ?thesis using t(1) report_heap [OF rp0] by simp
  qed
  show ?thesis
  proof (cases "FileHandler \<in> set (handlers w)")
    case True
    obtain e0 w0 where rp: "report StreamWrite m (named_parameters m)
        (emit (StreamWrite report_header) w) = (e0, w0)"
      by (cases "report StreamWrite m (named_parameters m) (emit (StreamWrite report_header) w)")
    have "w' = w0 \<or> w' = emit StreamFlush w0"
      using assms True rp by (auto simp: finalize_init_def split: prod.splits if_splits)
    then show ?thesis using r [OF rp] by auto
  next
    case False
    obtain e0 w0 where rp: "report LogInfo m (named_parameters m) w = (e0, w0)"
      by (cases "report LogInfo m (named_parameters m) w")
    have "w' = w0"
      using assms False rp by (auto simp: finalize_init_def split: prod.splits if_splits)
    then show ?thesis using r [OF rp] by auto
  qed
qed

lemma finalize_init_fresh:
  assumes "all_info (Some a) m"
    and "\<forall>(n, p)\<in>set (named_parameters m). \<exists>en. dicts (heap w) a (pid p) = Some en \<and> init_info en = unchanged_msg c"
  shows "finalize_init m w =
     (None, clear_info m, w\<lparr>trace := trace w @ report_events (handlers w) c (named_parameters m)\<rparr>)"
proof -
  have root: "params_init_info m = Some a" using assms(1) by (rule all_info_root)
  have d: "del_info m = (None, clear_info m)" using assms(1) by (rule del_info_all_info)
  show ?thesis
  proof (cases "FileHandler \<in> set (handlers w)")
    case True
    have "report StreamWrite m (named_parameters m) (emit (StreamWrite report_header) w) =
       (None, (emit (StreamWrite report_header) w)
          \<lparr>trace := trace (emit (StreamWrite report_header) w) @
             map (\<lambda>(n, p). StreamWrite (report_line n (pshape p) (unchanged_msg c))) (named_parameters m)\<rparr>)"
      using assms(2) by (intro report_ok [OF root]) simp
    then show ?thesis
      using True d by (simp add: finalize_init_def report_events_def emit_def)
  next
    case False
    have "report LogInfo m (named_parameters m) w =
       (None, w\<lparr>trace := trace w @
             map (\<lambda>(n, p). LogInfo (report_line n (pshape p) (unchanged_msg c))) (named_parameters m)\<rparr>)"
      using assms(2) by (intro report_ok [OF root])
    then show ?thesis
      using False d by (simp add: finalize_init_def report_events_def)
  qed
qed

lemma clear_set_info: "clear_info (set_info a m) = clear_info m"
  by (induction m) simp

lemma again_top:
  assumes "base m = Some b" "is_init b" "params_init_info m = None"
  shows "init_weights x m w =
     (None, clear_info m,
      (snd (install x m w))\<lparr>trace := trace w @ LogWarning (multiple_msg (cls m)) #
         report_events (handlers w) (cls m) (named_parameters m)\<rparr>)"
proof -
  obtain m1 w1 where i: "install x m w = (m1, w1)" by (cases "install x m w")
  note iw = install_world [OF i]
  have m1: "m1 = set_info (next_dict w) m" using iw by simp
  have ai: "all_info (Some (next_dict w)) m1" unfolding m1 by (rule all_info_set_info)
  have "init_weights x m w = finalize_init m1 (emit (LogWarning (multiple_msg (cls m))) w1)"
    apply (subst init_weights.simps)
    using assms i m1 apply (cases m) apply (simp add: Let_def)
    done
  also have "\<dots> = (None, clear_info m1, (emit (LogWarning (multiple_msg (cls m))) w1)
      \<lparr>trace := trace (emit (LogWarning (multiple_msg (cls m))) w1) @
         report_events (handlers (emit (LogWarning (multiple_msg (cls m))) w1)) (cls m) (named_parameters m1)\<rparr>)"
  proof (rule finalize_init_fresh [OF ai])
    show "\<forall>(n, p)\<in>set (named_parameters m1).
       \<exists>en. dicts (heap (emit (LogWarning (multiple_msg (cls m))) w1)) (next_dict w) (pid p) = Some en \<and>
            init_info en = unchanged_msg (cls m)"
      using install_dict [OF i] by (force simp: m1 named_parameters_set_info)
  qed
  finally show ?thesis
    using iw i by (simp add: m1 named_parameters_set_info emit_def clear_set_info)
qed

section \<open>Trees that one call initializes completely\<close>

text \<open>
  \<open>all_init m\<close>: every module of the tree is initialized. \<open>ready m\<close>: every module that a call
  on \<open>m\<close> reaches is a \<^verbatim>\<open>BaseModule\<close>, and below a module that is already initialized (which
  the call does not enter) every module is initialized.
\<close>

definition all_init :: "module \<Rightarrow> bool" where
  "all_init m = (\<forall>d\<in>set (modules m). get_is_init d)"

fun ready :: "module \<Rightarrow> bool" where
  "ready (Module i l c b a ps cs) =
     (case b of
        None \<Rightarrow> False
      | Some r \<Rightarrow>
          if is_init r then (\<forall>ch\<in>set cs. all_init ch) else (\<forall>ch\<in>set cs. ready ch))"

lemma all_init_Module:
  "all_init (Module i l c b a ps cs) =
     (get_is_init (Module i l c b a ps cs) \<and> (\<forall>ch\<in>set cs. all_init ch))"
  by (auto simp: all_init_def)

lemma all_init_flags: "all_init m = (\<forall>f\<in>set (map get_is_init (modules m)). f)"
  by (auto simp: all_init_def)

lemma flags_set_info: "map get_is_init (modules (set_info a m)) = map get_is_init (modules m)"
  by (induction m) (auto simp: get_is_init_def map_concat comp_def intro!: arg_cong [where f = concat])

lemma all_init_set_info: "all_init (set_info a m) = all_init m"
  unfolding all_init_flags flags_set_info ..

lemma all_init_clear_info: "all_init (clear_info m) = all_init m"
  unfolding all_init_flags flags_clear_info ..

lemma ready_set_info: "ready (set_info a m) = ready m"
  by (induction m) (auto simp: all_init_set_info split: option.splits)

lemma ready_children:
  "ready m \<Longrightarrow> \<not> get_is_init m \<Longrightarrow> ch \<in> set (children m) \<Longrightarrow> ready ch"
  by (cases m) (auto simp: get_is_init_def split: option.splits if_splits)

lemma ready_initialized: "ready m \<Longrightarrow> get_is_init m \<Longrightarrow> all_init m"
  by (cases m) (auto simp: get_is_init_def all_init_Module split: option.splits if_splits)

lemma ready_base: "ready m \<Longrightarrow> base m \<noteq> None"
  by (cases m) (auto split: option.splits)

lemma ready_children_aux:
  assumes H: "\<And>c w c' w'. c \<in> S \<Longrightarrow> all_info (Some a) c \<Longrightarrow> ready c \<Longrightarrow>
             init_weights x c w = (None, c', w') \<Longrightarrow> all_init c'"
  shows "set ms \<subseteq> S \<Longrightarrow> \<forall>c\<in>set ms. all_info (Some a) c \<and> ready c \<Longrightarrow>
     init_children x ms w = (None, ms', w') \<Longrightarrow> \<forall>c\<in>set ms'. all_init c"
proof (induction ms arbitrary: w ms' w')
  case Nil
  then show ?case by simp
next
  case (Cons child rest)
  have ih: "init_children x rest w0 = (None, r0, w0') \<Longrightarrow> \<forall>c\<in>set r0. all_init c" for w0 r0 w0'
    using Cons.IH [of w0 r0 w0'] Cons.prems(1,2) by simp
  have hd: "init_weights x child w0 = (None, c0, w0') \<Longrightarrow> all_init c0" for w0 c0 w0'
    using H [of child w0 c0 w0'] Cons.prems(1,2) by simp
  from Cons.prems(3) show ?case
  proof (cases rule: init_children_cases)
    case (skipped rest')
    have "base child \<noteq> None" using Cons.prems(2) by (simp add: ready_base)
    then have "get_is_init child" using skipped(1) by (simp add: has_init_weights_def)
    then have "all_init child" using Cons.prems(2) by (simp add: ready_initialized)
    then show ?thesis using ih [of w rest' w'] skipped by simp
  next
    case (target_fail err target)
    then show ?thesis by simp
  next
    case (update_fail err target w1)
    then show ?thesis by simp
  next
    case (visited target w1 w2 rest')
    then show ?thesis using hd [of w target w1] ih [of w2 rest' w'] by simp
  qed
qed

lemma modules_set_is_init:
  "modules (set_is_init f (set_children cs m)) =
     set_is_init f (set_children cs m) # concat (map modules cs)"
  by (cases m) simp

lemma nested_ready:
  "all_info (Some a) m \<Longrightarrow> ready m \<Longrightarrow> init_weights x m w = (None, m', w') \<Longrightarrow> all_init m'"
proof (induction m arbitrary: w m' w' rule: module_induct)
  case (node m)
  have root: "params_init_info m = Some a"
    using node.prems(1) by (rule all_info_root)
  from node.prems(3) root show ?case
  proof (cases rule: nested_cases)
    case no_base
    then show ?thesis by simp
  next
    case (warned b)
    then have "get_is_init m" by (simp add: get_is_init_def)
    then show ?thesis using node.prems(2) warned by (simp add: ready_initialized)
  next
    case (bad_cfg b err)
    then show ?thesis by simp
  next
    case (std_raised b other pre err)
    then show ?thesis by simp
  next
    case (child_raised b other pre w3 err cs)
    then show ?thesis by simp
  next
    case (ovr_raised b other pre w3 cs w4 err)
    then show ?thesis by simp
  next
    case (completed b other pre w3 cs w4)
    have ni: "\<not> get_is_init m" using completed(1,2) by (simp add: get_is_init_def)
    have "\<forall>c\<in>set cs. all_init c"
    proof (rule ready_children_aux [where S = "set (children m)", OF _ _ _ completed(5)])
      show "\<forall>c\<in>set (children m). all_info (Some a) c \<and> ready c"
        using node.prems(1,2) ni by (auto intro: all_info_children ready_children)
    next
      fix c w0 c' w0'
      assume "c \<in> set (children m)" "all_info (Some a) c" "ready c"
        "init_weights x c w0 = (None, c', w0')"
      then show "all_init c'" using node.IH(1) by blast
    qed simp
    moreover have "get_is_init (set_is_init True (set_children cs m))"
      using completed(1) by (cases m) (simp add: get_is_init_def)
    ultimately show ?thesis
      unfolding completed(8) all_init_def modules_set_is_init by auto
  qed
qed

lemma top_level_run:
  assumes "init_weights x m w = (e, m', w')" and "base m \<noteq> None" and "params_init_info m = None"
  obtains m1 w1 e2 m2 w2 where
    "install x m w = (m1, w1)" "m1 = set_info (next_dict w) m"
    "init_weights x m1 w1 = (e2, m2, w2)" "all_info (Some (next_dict w)) m2"
    "next_dict w2 = Suc (next_dict w)"
    "e2 \<noteq> None \<longrightarrow> e = e2 \<and> m' = m2 \<and> w' = w2"
    "e2 = None \<longrightarrow> finalize_init m2 w2 = (e, m', w')"
    "e = None \<longrightarrow> e2 = None \<and> m' = clear_info m2"
    "e \<noteq> None \<longrightarrow> m' = m2"
proof -
  obtain m1 w1 where i: "install x m w = (m1, w1)" by (cases "install x m w")
  obtain e2 m2 w2 where n: "init_weights x m1 w1 = (e2, m2, w2)" by (cases "init_weights x m1 w1")
  note iw = install_world [OF i]
  have ai: "all_info (Some (next_dict w)) m1" using iw by (simp add: all_info_set_info)
  note na = nested_all_info [OF ai n]
  have r: "(e, m', w') = (if e2 \<noteq> None then (e2, m2, w2) else finalize_init m2 w2)"
    using init_weights_top [OF assms(2,3), of x w] assms(1) i n by simp
  have f: "e = None \<and> m' = clear_info m2 \<or> e \<noteq> None \<and> m' = m2" if "e2 = None"
  proof -
    have fi: "finalize_init m2 w2 = (e, m', w')" using r that by simp
    from fi show ?thesis
    proof (cases rule: finalize_init_cases)
      case (report_fail err out0 w0)
      then show ?thesis by simp
    next
      case deleted
      then show ?thesis using del_info_all_info(1) [of "next_dict w" m2] na by simp
    qed
  qed
  show ?thesis
  proof (rule that [OF i _ n])
    show "m1 = set_info (next_dict w) m" using iw by simp
    show "all_info (Some (next_dict w)) m2" using na by simp
    show "next_dict w2 = Suc (next_dict w)" using na iw by simp
    show "e2 \<noteq> None \<longrightarrow> e = e2 \<and> m' = m2 \<and> w' = w2" using r by auto
    show "e2 = None \<longrightarrow> finalize_init m2 w2 = (e, m', w')" using r by auto
    show "e = None \<longrightarrow> e2 = None \<and> m' = clear_info m2" using r f by (cases e2) auto
    show "e \<noteq> None \<longrightarrow> m' = m2" using r f by (cases e2) auto
  qed
qed

section \<open>The calls of \<^verbatim>\<open>initialize\<close> in the trace\<close>

text \<open>
  \<open>calls t\<close> are the calls of \<^verbatim>\<open>initialize\<close> recorded in \<open>t\<close>, in order, each with the module
  it was called on and the list of rules it was given; \<open>new_events w w'\<close> are the events
  that lead from \<open>w\<close> to \<open>w'\<close>. \<open>expected_calls\<close> follows the specification: a module that
  is visited (it is a \<^verbatim>\<open>BaseModule\<close> and not initialized) gets its Standard rules, then its
  children one after the other in the order of registration, then its Override rules; a
  group without rules gives no call.
\<close>

fun calls :: "event list \<Rightarrow> (nat \<times> pyv list) list" where
  "calls [] = []"
| "calls (Initialize i cfgs e # t) = (i, cfgs) # calls t"
| "calls (ev # t) = calls t"

definition new_events :: "'t world \<Rightarrow> 't world \<Rightarrow> event list" where
  "new_events w w' = drop (length (trace w)) (trace w')"



lemma calls_append [simp]: "calls (s @ t) = calls s @ calls t"
  by (induction s rule: calls.induct) simp_all












lemma new_events_append: "trace w' = trace w @ t \<Longrightarrow> new_events w w' = t"
  by (simp add: new_events_def)

section \<open>Where a failed call of \<^verbatim>\<open>initialize\<close> leaves the tree\<close>



fun failed :: "event \<Rightarrow> bool" where
  "failed (Initialize i cfgs (Some err)) = True"
| "failed ev = False"

definition halted ::
  "error option \<Rightarrow> event list \<Rightarrow> (nat \<times> bool) list \<Rightarrow> (nat \<times> bool) list \<Rightarrow> bool" where
  "halted e t s s' =
     (\<exists>t0 f cfgs err pre pre' b post.
        t = t0 @ [Initialize f cfgs (Some err)] \<and> filter failed t0 = [] \<and> e = Some err \<and>
        s = pre @ (f, b) # post \<and> s' = pre' @ (f, b) # post \<and> length pre' = length pre)"







lemma halted_None [simp]: "\<not> halted None t s s'"
  by (simp add: halted_def)











section \<open>The constructor and \<^verbatim>\<open>copy.deepcopy\<close>\<close>

text \<open>
  Python objects as the caller of \<^verbatim>\<open>BaseModule.__init__\<close> holds them: a value is \<^verbatim>\<open>None\<close>, a
  string, an integer, a class, or a reference to a dictionary or a list, which are mutable
  objects of the heap. The heap is the list of the objects allocated so far, a reference is
  an index into it, and an allocation appends.
\<close>

datatype hval = HNone | HStr string | HInt int | HCls string | HRef nat

datatype obj = ODict "(string \<times> hval) list" | OList "hval list"

type_synonym pyheap = "obj list"

text \<open>
  \<^verbatim>\<open>copy.deepcopy\<close> of the standard library, on these values: an atomic value is returned as
  it is; a list is copied element by element and a dictionary value by value (its keys are
  strings) into a new object. The first argument is the depth of recursion that the
  interpreter still allows, beyond which \<^verbatim>\<open>RecursionError\<close> is raised. The memo of
  \<^verbatim>\<open>deepcopy\<close>, by which an object that is reached twice is copied once, is left out: it
  changes which copies are shared, not what they contain. A reference outside the heap,
  which no running program holds, gives \<^verbatim>\<open>KeyError\<close>.
\<close>

fun deepcopy :: "nat \<Rightarrow> hval \<Rightarrow> pyheap \<Rightarrow> error + hval \<times> pyheap"
  and deepcopy_list :: "nat \<Rightarrow> hval list \<Rightarrow> pyheap \<Rightarrow> error + hval list \<times> pyheap" where
  "deepcopy 0 (HRef a) h = Inl RecursionError"
| "deepcopy (Suc k) (HRef a) h =
     (if a < length h then
        (case h ! a of
           OList xs \<Rightarrow>
             (case deepcopy_list k xs h of
                Inl e \<Rightarrow> Inl e
              | Inr (ys, h1) \<Rightarrow> Inr (HRef (length h1), h1 @ [OList ys]))
         | ODict kvs \<Rightarrow>
             (case deepcopy_list k (map snd kvs) h of
                Inl e \<Rightarrow> Inl e
              | Inr (ys, h1) \<Rightarrow> Inr (HRef (length h1), h1 @ [ODict (zip (map fst kvs) ys)])))
      else Inl KeyError)"
| "deepcopy k v h = Inr (v, h)"
| "deepcopy_list k [] h = Inr ([], h)"
| "deepcopy_list k (x # xs) h =
     (case deepcopy k x h of
        Inl e \<Rightarrow> Inl e
      | Inr (y, h1) \<Rightarrow>
          (case deepcopy_list k xs h1 of
             Inl e \<Rightarrow> Inl e
           | Inr (ys, h2) \<Rightarrow> Inr (y # ys, h2)))"

text \<open>
  The value that a heap value denotes, as \<^verbatim>\<open>init_weights\<close> reads it (the model of
  \<^verbatim>\<open>init_weights\<close> takes \<^verbatim>\<open>init_cfg\<close> by value): defined for the finite nestings of dictionaries
  and lists up to the given depth. Two heap values are structurally equal, in the sense of
  the comparison \<^verbatim>\<open>==\<close> of Python, when they denote the same value.
\<close>

fun read :: "nat \<Rightarrow> pyheap \<Rightarrow> hval \<Rightarrow> pyv option"
  and read_list :: "nat \<Rightarrow> pyheap \<Rightarrow> hval list \<Rightarrow> pyv list option" where
  "read k h HNone = Some PNone"
| "read k h (HStr s) = Some (PStr s)"
| "read k h (HInt i) = Some (PInt i)"
| "read k h (HCls c) = Some (PCls c)"
| "read 0 h (HRef a) = None"
| "read (Suc k) h (HRef a) =
     (if a < length h then
        (case h ! a of
           OList xs \<Rightarrow> map_option PList (read_list k h xs)
         | ODict kvs \<Rightarrow>
             map_option (\<lambda>ts. PDict (zip (map fst kvs) ts)) (read_list k h (map snd kvs)))
      else None)"
| "read_list k h [] = Some []"
| "read_list k h (x # xs) =
     (case read k h x of
        None \<Rightarrow> None
      | Some t \<Rightarrow> map_option ((#) t) (read_list k h xs))"

text \<open>
  Lines 25 to 28: \<^verbatim>\<open>self.init_cfg = copy.deepcopy(init_cfg)\<close> and \<^verbatim>\<open>self._is_init = False\<close>. The
  result is the pair of the two attributes and the heap after the copy. \<open>attrs_at\<close> gives
  the attributes as \<^verbatim>\<open>init_weights\<close> finds them in a later heap.
\<close>

definition BaseModule_init :: "nat \<Rightarrow> hval \<Rightarrow> pyheap \<Rightarrow> error + (hval \<times> bool) \<times> pyheap" where
  "BaseModule_init limit cfg h =
     (case deepcopy limit cfg h of
        Inl e \<Rightarrow> Inl e
      | Inr (v, h') \<Rightarrow> Inr ((v, False), h'))"

definition attrs_at :: "nat \<Rightarrow> pyheap \<Rightarrow> hval \<times> bool \<Rightarrow> base_attrs option" where
  "attrs_at limit h s =
     map_option (\<lambda>c. \<lparr>init_cfg = c, is_init = snd s\<rparr>) (read limit h (fst s))"

text \<open>
  \<open>kept_copy h0 h' h''\<close>: the heap \<open>h''\<close> is a later state of \<open>h'\<close> in which the objects
  allocated between \<open>h0\<close> and \<open>h'\<close> are as they were; the objects of \<open>h0\<close>, which are those the
  caller can reach through the argument, may have been mutated in any way, and new objects
  may have been allocated.
\<close>

definition kept_copy :: "pyheap \<Rightarrow> pyheap \<Rightarrow> pyheap \<Rightarrow> bool" where
  "kept_copy h0 h' h'' =
     (length h' \<le> length h'' \<and> (\<forall>a\<in>set [length h0..<length h']. h'' ! a = h' ! a))"

lemma read_extend:
  "read k h v = Some t \<Longrightarrow> read k (h @ ext) v = Some t"
  "read_list k h vs = Some ts \<Longrightarrow> read_list k (h @ ext) vs = Some ts"
proof (induction k h v and k h vs arbitrary: t and ts rule: read_read_list.induct)
  case (6 k h a)
  then show ?case
    by (auto simp: nth_append split: if_splits obj.splits)
next
  case (8 k h x xs)
  then show ?case
    by (auto split: option.splits)
qed simp_all

lemma kept_copy_first:
  "kept_copy h (h @ e1 @ e2) h'' \<Longrightarrow> kept_copy h (h @ e1) h''"
  by (auto simp: kept_copy_def nth_append)

lemma kept_copy_second:
  "kept_copy h (h @ e1 @ e2) h'' \<Longrightarrow> kept_copy (h @ e1) ((h @ e1) @ e2) h''"
  by (auto simp: kept_copy_def)

lemma kept_copy_last:
  "kept_copy h (h @ e1 @ [ob]) h'' \<Longrightarrow>
     length (h @ e1) < length h'' \<and> h'' ! length (h @ e1) = ob"
  by (auto simp: kept_copy_def nth_append)

lemma deepcopy_list_step:
  assumes H: "\<And>h v t. read k h v = Some t \<Longrightarrow>
     \<exists>v' ext. deepcopy k v h = Inr (v', h @ ext) \<and>
       (\<forall>h''. kept_copy h (h @ ext) h'' \<longrightarrow> read k h'' v' = Some t)"
  shows "read_list k h vs = Some ts \<Longrightarrow>
     \<exists>vs' ext. deepcopy_list k vs h = Inr (vs', h @ ext) \<and> length vs' = length vs \<and>
       (\<forall>h''. kept_copy h (h @ ext) h'' \<longrightarrow> read_list k h'' vs' = Some ts)"
proof (induction vs arbitrary: h ts)
  case Nil
  then show ?case by (auto intro: exI [where x = "[]"])
next
  case (Cons x xs)
  obtain t ts' where r: "read k h x = Some t" "read_list k h xs = Some ts'" "ts = t # ts'"
    using Cons.prems by (auto split: option.splits)
  obtain y e1 where y: "deepcopy k x h = Inr (y, h @ e1)"
      "\<forall>h''. kept_copy h (h @ e1) h'' \<longrightarrow> read k h'' y = Some t"
    using H [OF r(1)] by blast
  have "read_list k (h @ e1) xs = Some ts'"
    using r(2) by (rule read_extend)
  then obtain ys e2 where ys: "deepcopy_list k xs (h @ e1) = Inr (ys, (h @ e1) @ e2)"
      "length ys = length xs"
      "\<forall>h''. kept_copy (h @ e1) ((h @ e1) @ e2) h'' \<longrightarrow> read_list k h'' ys = Some ts'"
    using Cons.IH [of "h @ e1" ts'] by blast
  have d: "deepcopy_list k (x # xs) h = Inr (y # ys, h @ (e1 @ e2))"
    using y(1) ys(1) by simp
  have rd: "read_list k h'' (y # ys) = Some ts" if k: "kept_copy h (h @ (e1 @ e2)) h''" for h''
    using y(2) ys(3) kept_copy_first [OF k] kept_copy_second [OF k] r(3) by simp
  show ?case
    apply (rule exI [where x = "y # ys"])
    apply (rule exI [where x = "e1 @ e2"])
    using d rd ys(2) apply simp
    done
qed

lemma deepcopy_correct:
  "read k h v = Some t \<Longrightarrow>
     \<exists>v' ext. deepcopy k v h = Inr (v', h @ ext) \<and>
       (\<forall>h''. kept_copy h (h @ ext) h'' \<longrightarrow> read k h'' v' = Some t)"
proof (induction k arbitrary: h v t)
  case 0
  then show ?case
    by (cases v) (auto intro: exI [where x = "[]"])
next
  case (Suc k)
  show ?case
  proof (cases v)
    case (HRef a)
    have a: "a < length h" using Suc.prems HRef by (simp split: if_splits)
    show ?thesis
    proof (cases "h ! a")
      case (OList xs)
      obtain ts where ts: "read_list k h xs = Some ts" "t = PList ts"
        using Suc.prems HRef a OList by auto
      obtain ys e1 where ys: "deepcopy_list k xs h = Inr (ys, h @ e1)"
          "\<forall>h''. kept_copy h (h @ e1) h'' \<longrightarrow> read_list k h'' ys = Some ts"
        using deepcopy_list_step [of k h xs ts, OF Suc.IH ts(1)] by blast
      have d: "deepcopy (Suc k) v h = Inr (HRef (length (h @ e1)), h @ (e1 @ [OList ys]))"
        using HRef a OList ys(1) by simp
      have "read (Suc k) h'' (HRef (length (h @ e1))) = Some t"
        if k: "kept_copy h (h @ (e1 @ [OList ys])) h''" for h''
        using kept_copy_last [OF k] ys(2) kept_copy_first [OF k] ts(2) by simp
      then show ?thesis using d by blast
    next
      case (ODict kvs)
      obtain ts where ts: "read_list k h (map snd kvs) = Some ts" "t = PDict (zip (map fst kvs) ts)"
        using Suc.prems HRef a ODict by auto
      obtain ys e1 where ys: "deepcopy_list k (map snd kvs) h = Inr (ys, h @ e1)"
          "length ys = length (map snd kvs)"
          "\<forall>h''. kept_copy h (h @ e1) h'' \<longrightarrow> read_list k h'' ys = Some ts"
        using deepcopy_list_step [of k h "map snd kvs" ts, OF Suc.IH ts(1)] by blast
      have z: "map fst (zip (map fst kvs) ys) = map fst kvs" "map snd (zip (map fst kvs) ys) = ys"
        using ys(2) by simp_all
      have d: "deepcopy (Suc k) v h =
          Inr (HRef (length (h @ e1)), h @ (e1 @ [ODict (zip (map fst kvs) ys)]))"
        using HRef a ODict ys(1) by simp
      have "read (Suc k) h'' (HRef (length (h @ e1))) = Some t"
        if k: "kept_copy h (h @ (e1 @ [ODict (zip (map fst kvs) ys)])) h''" for h''
        using kept_copy_last [OF k] ys(3) kept_copy_first [OF k] ts(2) z by simp
      then show ?thesis using d by blast
    qed
  qed (use Suc.prems in \<open>auto intro: exI [where x = "[]"]\<close>)
qed

lemma kept_copy_refl: "kept_copy h h' h'"
  by (simp add: kept_copy_def)

text \<open>
  A caller's configuration, a list of one \<^verbatim>\<open>Pretrained\<close> rule; the heap after the
  construction of a module from it; and that heap after the caller has replaced the content
  of its rule.
\<close>

definition caller_heap :: pyheap where
  "caller_heap =
     [ODict [(''type'', HStr ''Pretrained''), (''checkpoint'', HStr ''ckpt.pth'')],
      OList [HRef 0]]"

definition constructed_heap :: pyheap where
  "constructed_heap =
     caller_heap @
     [ODict [(''type'', HStr ''Pretrained''), (''checkpoint'', HStr ''ckpt.pth'')],
      OList [HRef 2]]"

definition mutated_heap :: pyheap where
  "mutated_heap = constructed_heap[0 := ODict [(''type'', HStr ''Constant'')]]"

section \<open>Concrete modules and collaborators\<close>

text \<open>
  Collaborators over integer tensors: one whose calls all succeed and leave the store as it
  is, one whose \<^verbatim>\<open>initialize\<close> raises, and one whose \<^verbatim>\<open>initialize\<close> raises on \<^verbatim>\<open>Pretrained\<close>
  rules only.
\<close>

definition ext_ok :: "int ext" where
  "ext_ok = \<lparr>mean = (\<lambda>t. t), initialize = (\<lambda>m cfgs s. (None, s)),
             update_init_info = (\<lambda>m msg s. (None, s))\<rparr>"

definition ext_failing :: "int ext" where
  "ext_failing = \<lparr>mean = (\<lambda>t. t),
                  initialize = (\<lambda>m cfgs s. (Some (DispatchError ''unknown rule''), s)),
                  update_init_info = (\<lambda>m msg s. (None, s))\<rparr>"

definition empty_world :: "int world" where
  "empty_world = \<lparr>heap = \<lparr>tensors = (\<lambda>_. 0), dicts = (\<lambda>_. Map.empty)\<rparr>,
                  next_dict = 0, handlers = [], trace = []\<rparr>"

text \<open>A module as \<^verbatim>\<open>BaseModule.__init__\<close> leaves it, with parameters and children registered.\<close>

definition base_module :: "nat \<Rightarrow> string \<Rightarrow> pyv \<Rightarrow> bool \<Rightarrow> param list \<Rightarrow> module list \<Rightarrow> module" where
  "base_module i c cfg done ps cs =
     Module i c c (Some \<lparr>init_cfg = cfg, is_init = done\<rparr>) None ps cs"

definition constant_rule :: pyv where
  "constant_rule = PDict [(''type'', PStr ''Constant''), (''val'', PInt 1)]"

definition normal_rule :: pyv where
  "normal_rule = PDict [(''type'', PStr ''Normal'')]"

definition pretrained_rule :: pyv where
  "pretrained_rule = PDict [(''type'', PStr ''Pretrained''), (''checkpoint'', PStr ''ckpt.pth'')]"

definition weight :: param where
  "weight = \<lparr>pid = 10, pname = ''weight'', pshape = ''torch.Size([2])''\<rparr>"

definition bias :: param where
  "bias = \<lparr>pid = 11, pname = ''bias'', pshape = ''torch.Size([1])''\<rparr>"

text \<open>
  Trees: a fresh root with a Standard and a Pretrained rule and one fresh child with a rule;
  the same tree with every module initialized; with the root initialized and the child
  not; a fresh root over an initialized child that has a fresh child of its own; a root with
  four rules, one of them without a \<^verbatim>\<open>type\<close> entry, over a child without rules; and a root
  with two children, the first of which has a child.
\<close>

definition fresh_tree :: module where
  "fresh_tree =
     base_module 0 ''Root'' (PList [constant_rule, pretrained_rule]) False [weight]
       [base_module 1 ''Child'' normal_rule False [bias] []]"

definition initialized_tree :: module where
  "initialized_tree =
     base_module 0 ''Root'' (PList [constant_rule, pretrained_rule]) True [weight]
       [base_module 1 ''Child'' normal_rule True [bias] []]"

definition grown_tree :: module where
  "grown_tree =
     base_module 0 ''Root'' (PList [constant_rule, pretrained_rule]) True [weight]
       [base_module 1 ''Child'' normal_rule False [bias] []]"

definition stale_tree :: module where
  "stale_tree =
     base_module 0 ''Root'' constant_rule False [weight]
       [base_module 1 ''Child'' normal_rule True [bias]
          [base_module 2 ''Leaf'' PNone False [] []]]"





lemmas example_defs =
  ext_ok_def ext_failing_def empty_world_def base_module_def constant_rule_def normal_rule_def
  pretrained_rule_def weight_def bias_def fresh_tree_def

lemmas engine_defs =
  init_weights.simps install_def finalize_init_def named_parameters_def join_name_def
  split_init_cfg_def has_init_weights_def get_is_init_def call_initialize_def
  call_update_init_info_def emit_def lookup_info_def Let_def unchanged_msg_def multiple_msg_def
  user_defined_msg_def report_line_def report_header_def

section \<open>Claims\<close>

subsection \<open>C1: a call on an initialized root\<close>

text \<open>
  C1, as amended. A call of \<^verbatim>\<open>init_weights\<close> on a module whose \<^verbatim>\<open>_is_init\<close> is already true
  logs the warning and returns (lines 63 to 67), through \<^verbatim>\<open>_finalize_init\<close> when the call is
  top-level. It raises nothing, the warning is its first event, no call of \<^verbatim>\<open>initialize\<close>
  and no second warning follow, and every module of the tree has the flag it had before:
  the children are not visited, so a child that is not initialized stays so.
\<close>

theorem initialized_root_returns_early:
  assumes "base m = Some b" and "is_init b" and "init_weights x m w = (e, m', w')"
  shows "e = None \<and>
     map get_is_init (modules m') = map get_is_init (modules m) \<and>
     map mid (modules m') = map mid (modules m) \<and>
     (\<exists>t. trace w' = trace w @ LogWarning (multiple_msg (cls m)) # t \<and>
          filter is_initialize t = [] \<and> filter is_warning t = [])"
proof (cases "params_init_info m")
  case None
  have f: "filter is_initialize (report_events hs c nps) = []"
    "filter is_warning (report_events hs c nps) = []" for hs c nps
    by (auto simp: report_events_def filter_empty_conv)
  show ?thesis
    using assms(3) unfolding again_top [OF assms(1,2) None]
    by (auto simp: flags_clear_info mids_clear_info f)
next
  case (Some a)
  from assms(3) Some show ?thesis
    by (cases rule: nested_cases) (use assms(1,2) in auto)
qed

theorem initialized_root_returns_early_witness:
  "get_is_init grown_tree \<and>
   fst (init_weights ext_ok grown_tree empty_world) = None \<and>
   map get_is_init (modules (fst (snd (init_weights ext_ok grown_tree empty_world)))) = [True, False] \<and>
   filter is_initialize (trace (snd (snd (init_weights ext_ok grown_tree empty_world)))) = []"
proof -
  have b: "base grown_tree = Some \<lparr>init_cfg = PList [constant_rule, pretrained_rule], is_init = True\<rparr>"
    and i: "is_init \<lparr>init_cfg = PList [constant_rule, pretrained_rule], is_init = True\<rparr>"
    and g: "get_is_init grown_tree" "map get_is_init (modules grown_tree) = [True, False]"
    and t: "trace empty_world = []"
    by (simp_all add: grown_tree_def base_module_def get_is_init_def empty_world_def)
  have r: "init_weights ext_ok grown_tree empty_world =
     (fst (init_weights ext_ok grown_tree empty_world),
      fst (snd (init_weights ext_ok grown_tree empty_world)),
      snd (snd (init_weights ext_ok grown_tree empty_world)))"
    by simp
  show ?thesis
    using initialized_root_returns_early [OF b i r] g t by auto
qed

text \<open>
  C1 as the specification words it does not hold. On an initialized root with one child
  that is not initialized, the call returns without an exception and the child is still
  not initialized.
\<close>

theorem uninitialized_child_skipped:
  "get_is_init grown_tree \<and>
   map get_is_init (children grown_tree) = [False] \<and>
   fst (init_weights ext_ok grown_tree empty_world) = None \<and>
   map get_is_init (children (fst (snd (init_weights ext_ok grown_tree empty_world)))) = [False]"
  by (simp add: grown_tree_def example_defs engine_defs)

subsection \<open>C2: the order of the rules\<close>



subsection \<open>C3: the lifetime of the tracking dictionary\<close>

text \<open>
  C3, as amended. A top-level call on a \<^verbatim>\<open>BaseModule\<close> creates one dictionary and puts it
  on every module of the tree before anything else; it is still on every module when the
  body of the call has run. When the call returns without an exception the attribute is
  absent from every module. When the call ends with an exception, the dictionary is left
  on every module: nothing in \<^verbatim>\<open>init_weights\<close> catches the exception to clean up.
\<close>

theorem tracking_map_lifetime:
  assumes "init_weights x m w = (e, m', w')" and "base m \<noteq> None" and "params_init_info m = None"
  shows "all_info (Some (next_dict w)) (fst (install x m w)) \<and>
     all_info (Some (next_dict w))
       (fst (snd (init_weights x (fst (install x m w)) (snd (install x m w))))) \<and>
     (e = None \<longrightarrow> all_info None m') \<and>
     (e \<noteq> None \<longrightarrow> all_info (Some (next_dict w)) m') \<and>
     next_dict w' = Suc (next_dict w)"
  using assms
proof (cases rule: top_level_run)
  case (1 m1 w1 e2 m2 w2)
  have "next_dict w' = Suc (next_dict w)"
  proof (cases e2)
    case None
    then show ?thesis using 1(5,7) finalize_init_world [of m2 w2 e m' w'] by simp
  next
    case (Some err)
    then show ?thesis using 1(5,6) by simp
  qed
  then show ?thesis
    using 1 by (auto simp: all_info_set_info all_info_clear_info)
qed

theorem tracking_map_lifetime_witness:
  "base fresh_tree \<noteq> None \<and> params_init_info fresh_tree = None \<and>
   all_info (Some 0) (fst (install ext_ok fresh_tree empty_world)) \<and>
   fst (init_weights ext_ok fresh_tree empty_world) = None \<and>
   all_info None (fst (snd (init_weights ext_ok fresh_tree empty_world))) \<and>
   fst (init_weights ext_failing fresh_tree empty_world) \<noteq> None \<and>
   all_info (Some 0) (fst (snd (init_weights ext_failing fresh_tree empty_world)))"
proof -
  have h: "base fresh_tree \<noteq> None" "params_init_info fresh_tree = None" "next_dict empty_world = 0"
    by (simp_all add: example_defs)
  have ev: "fst (init_weights ext_ok fresh_tree empty_world) = None"
    "fst (init_weights ext_failing fresh_tree empty_world) \<noteq> None"
    by (simp_all add: example_defs engine_defs)
  have r: "init_weights y fresh_tree empty_world =
     (fst (init_weights y fresh_tree empty_world),
      fst (snd (init_weights y fresh_tree empty_world)),
      snd (snd (init_weights y fresh_tree empty_world)))" for y :: "int ext"
    by simp
  show ?thesis
    using tracking_map_lifetime [OF r [of ext_ok] h(1,2)]
      tracking_map_lifetime [OF r [of ext_failing] h(1,2)] h ev
    by simp
qed

text \<open>
  C3 as the specification words it does not hold. When \<^verbatim>\<open>initialize\<close> raises on the root
  of a fresh tree, the call ends with that exception and both modules of the tree still
  carry the dictionary.
\<close>

theorem tracking_map_left_after_failure:
  "fst (init_weights ext_failing fresh_tree empty_world) = Some (DispatchError ''unknown rule'') \<and>
   map params_init_info (modules fresh_tree) = [None, None] \<and>
   map params_init_info (modules (fst (snd (init_weights ext_failing fresh_tree empty_world)))) =
     [Some 0, Some 0]"
  by (simp add: example_defs engine_defs)

subsection \<open>C4: after one successful call\<close>

text \<open>
  C4, as amended. After a top-level call that returned without an exception on a tree that
  is \<open>ready\<close> (all the modules reached are \<^verbatim>\<open>BaseModule\<close>s and every module below an already
  initialized one is initialized), every module of the tree is initialized and none carries
  the tracking dictionary.
\<close>

theorem ready_tree_fully_initialized:
  assumes "init_weights x m w = (None, m', w')" and "params_init_info m = None" and "ready m"
  shows "all_init m' \<and> all_info None m'"
proof -
  have b: "base m \<noteq> None" using assms(3) by (rule ready_base)
  from assms(1) b assms(2) show ?thesis
  proof (cases rule: top_level_run)
    case (1 m1 w1 e2 m2 w2)
    have "all_info (Some (next_dict w)) m1" "ready m1"
      using 1(2) assms(3) by (simp_all add: all_info_set_info ready_set_info)
    then have "all_init m2"
      using nested_ready [of "next_dict w" m1 x w1 m2 w2] 1(3,8) by simp
    then show ?thesis using 1(8) by (simp add: all_init_clear_info all_info_clear_info)
  qed
qed

theorem ready_tree_fully_initialized_witness:
  "ready fresh_tree \<and> params_init_info fresh_tree = None \<and>
   fst (init_weights ext_ok fresh_tree empty_world) = None \<and>
   all_init (fst (snd (init_weights ext_ok fresh_tree empty_world))) \<and>
   all_info None (fst (snd (init_weights ext_ok fresh_tree empty_world)))"
proof -
  have h: "ready fresh_tree" "params_init_info fresh_tree = None"
    by (simp_all add: example_defs)
  have ev: "fst (init_weights ext_ok fresh_tree empty_world) = None"
    by (simp add: example_defs engine_defs)
  have r: "init_weights ext_ok fresh_tree empty_world =
     (None, fst (snd (init_weights ext_ok fresh_tree empty_world)),
      snd (snd (init_weights ext_ok fresh_tree empty_world)))"
    using ev by (cases "init_weights ext_ok fresh_tree empty_world") simp
  show ?thesis
    using ready_tree_fully_initialized [OF r h(2,1)] h ev by simp
qed

text \<open>
  C4 as the specification words it, for any tree, does not hold. Under a fresh root, an
  initialized child is skipped (line 89), and its own child, which is not initialized, is
  never reached: the call succeeds and that module is still not initialized.
\<close>

theorem stale_child_hides_leaf:
  "fst (init_weights ext_ok stale_tree empty_world) = None \<and>
   map get_is_init (modules stale_tree) = [False, True, False] \<and>
   map get_is_init (modules (fst (snd (init_weights ext_ok stale_tree empty_world)))) =
     [True, True, False]"
  by (simp add: stale_tree_def example_defs engine_defs)

subsection \<open>C5: a failed rule dispatch\<close>




subsection \<open>C6: a second call on an initialized tree\<close>

text \<open>
  C6. A top-level call on a module that is already initialized (as is the root of a tree
  that a first call initialized completely) returns without an exception; the events it adds
  are exactly one warning, \<^verbatim>\<open><class name>.init_weights() called multiple times.\<close>, followed
  by a report written from a fresh dictionary, in which every parameter has the default
  description; no call of \<^verbatim>\<open>initialize\<close> is among them; and the fresh dictionary is removed
  from every module before the call returns.
\<close>

theorem second_call_warns_and_finalizes:
  assumes "base m = Some b" and "is_init b" and "params_init_info m = None"
    and "init_weights x m w = (e, m', w')"
  shows "e = None \<and> m' = clear_info m \<and> all_info None m' \<and> next_dict w' = Suc (next_dict w) \<and>
     trace w' = trace w @ LogWarning (multiple_msg (cls m)) #
                  report_events (handlers w) (cls m) (named_parameters m) \<and>
     filter is_initialize (drop (length (trace w)) (trace w')) = [] \<and>
     filter is_warning (drop (length (trace w)) (trace w')) = [LogWarning (multiple_msg (cls m))]"
proof -
  have r: "e = None" "m' = clear_info m"
    "w' = (snd (install x m w))\<lparr>trace := trace w @ LogWarning (multiple_msg (cls m)) #
         report_events (handlers w) (cls m) (named_parameters m)\<rparr>"
    using assms(4) unfolding again_top [OF assms(1-3)] by simp_all
  have n: "next_dict w' = Suc (next_dict w)"
    unfolding r(3) by (simp add: install_def Let_def)
  have f: "filter is_initialize (report_events hs c nps) = []"
    "filter is_warning (report_events hs c nps) = []" for hs c nps
    by (auto simp: report_events_def filter_empty_conv)
  show ?thesis
    using r(1,2) n by (simp add: r(3) f all_info_clear_info)
qed

theorem second_call_warns_and_finalizes_witness:
  "fst (snd (init_weights ext_ok fresh_tree empty_world)) = initialized_tree \<and>
   list_all get_is_init (modules initialized_tree) \<and>
   params_init_info initialized_tree = None \<and>
   fst (init_weights ext_ok initialized_tree (snd (snd (init_weights ext_ok fresh_tree empty_world)))) = None \<and>
   new_events (snd (snd (init_weights ext_ok fresh_tree empty_world)))
     (snd (snd (init_weights ext_ok initialized_tree
        (snd (snd (init_weights ext_ok fresh_tree empty_world)))))) =
     [LogWarning ''Root.init_weights() called multiple times.'',
      LogInfo (report_line ''weight'' ''torch.Size([2])''
                 ''The value is unchanged before and after `init_weights` of Root''),
      LogInfo (report_line ''Child.bias'' ''torch.Size([1])''
                 ''The value is unchanged before and after `init_weights` of Root'')] \<and>
   map params_init_info (modules (fst (snd (init_weights ext_ok initialized_tree
      (snd (snd (init_weights ext_ok fresh_tree empty_world))))))) = [None, None]"
proof -
  let ?w = "snd (snd (init_weights ext_ok fresh_tree empty_world))"
  have first: "fst (snd (init_weights ext_ok fresh_tree empty_world)) = initialized_tree"
    by (simp add: initialized_tree_def example_defs engine_defs)
  have hs: "handlers ?w = []"
    by (simp add: example_defs engine_defs)
  have b: "base initialized_tree = Some \<lparr>init_cfg = PList [constant_rule, pretrained_rule], is_init = True\<rparr>"
    and i: "is_init \<lparr>init_cfg = PList [constant_rule, pretrained_rule], is_init = True\<rparr>"
    and t: "params_init_info initialized_tree = None"
    and a: "list_all get_is_init (modules initialized_tree)"
    and c: "cls initialized_tree = ''Root''"
    by (simp_all add: initialized_tree_def base_module_def get_is_init_def)
  have r: "init_weights ext_ok initialized_tree ?w =
     (fst (init_weights ext_ok initialized_tree ?w),
      fst (snd (init_weights ext_ok initialized_tree ?w)),
      snd (snd (init_weights ext_ok initialized_tree ?w)))"
    by simp
  have np: "named_parameters initialized_tree = [(''weight'', weight), (''Child.bias'', bias)]"
    by (simp add: initialized_tree_def example_defs named_parameters_def join_name_def)
  have cl: "map params_init_info (modules (clear_info initialized_tree)) = [None, None]"
    by (simp add: initialized_tree_def base_module_def)
  note T = second_call_warns_and_finalizes [OF b i t r]
  have e: "fst (init_weights ext_ok initialized_tree ?w) = None"
    using T by blast
  have m: "fst (snd (init_weights ext_ok initialized_tree ?w)) = clear_info initialized_tree"
    using T by blast
  have "trace (snd (snd (init_weights ext_ok initialized_tree ?w))) =
      trace ?w @ LogWarning (multiple_msg (cls initialized_tree)) #
        report_events (handlers ?w) (cls initialized_tree) (named_parameters initialized_tree)"
    using T by blast
  then have "new_events ?w (snd (snd (init_weights ext_ok initialized_tree ?w))) =
      LogWarning (multiple_msg (cls initialized_tree)) #
        report_events (handlers ?w) (cls initialized_tree) (named_parameters initialized_tree)"
    by (rule new_events_append)
  then have n: "new_events ?w (snd (snd (init_weights ext_ok initialized_tree ?w))) =
     [LogWarning ''Root.init_weights() called multiple times.'',
      LogInfo (report_line ''weight'' ''torch.Size([2])''
                 ''The value is unchanged before and after `init_weights` of Root''),
      LogInfo (report_line ''Child.bias'' ''torch.Size([1])''
                 ''The value is unchanged before and after `init_weights` of Root'')]"
    unfolding hs c np
    by (simp add: report_events_def multiple_msg_def unchanged_msg_def weight_def bias_def)
  show ?thesis
    using first a t e n cl unfolding m by simp
qed

subsection \<open>C7: rule partitioning\<close>



subsection \<open>C8: the flag \<^verbatim>\<open>_is_init\<close> is never reset\<close>

text \<open>
  C8. Whatever a call of \<^verbatim>\<open>init_weights\<close> or of \<^verbatim>\<open>_finalize_init\<close> does, also when it ends with
  an exception, no module of the tree whose \<^verbatim>\<open>_is_init\<close> was true has it false afterwards.
\<close>

theorem is_init_never_reset:
  "(init_weights x m w = (e, m', w') \<longrightarrow> flags_kept m m') \<and>
   (finalize_init m w = (e, m', w') \<longrightarrow> flags_kept m m')"
  unfolding flags_kept_def
  by (auto intro: evolves_modules init_weights_evolves evolves_finalize_init)

theorem is_init_never_reset_witness:
  "map get_is_init (modules fresh_tree) = [False, False] \<and>
   fst (init_weights ext_ok fresh_tree empty_world) = None \<and>
   map get_is_init (modules (fst (snd (init_weights ext_ok fresh_tree empty_world)))) = [True, True] \<and>
   flags_kept fresh_tree (fst (snd (init_weights ext_ok fresh_tree empty_world))) \<and>
   flags_kept (fst (snd (init_weights ext_ok fresh_tree empty_world)))
     (fst (snd (init_weights ext_ok (fst (snd (init_weights ext_ok fresh_tree empty_world)))
        (snd (snd (init_weights ext_ok fresh_tree empty_world))))))"
proof -
  have r: "init_weights ext_ok fresh_tree empty_world =
     (fst (init_weights ext_ok fresh_tree empty_world),
      fst (snd (init_weights ext_ok fresh_tree empty_world)),
      snd (snd (init_weights ext_ok fresh_tree empty_world)))"
    by simp
  have ev: "fst (init_weights ext_ok fresh_tree empty_world) = None \<and>
      map get_is_init (modules (fst (snd (init_weights ext_ok fresh_tree empty_world)))) = [True, True]"
    by (simp add: example_defs engine_defs)
  have f0: "map get_is_init (modules fresh_tree) = [False, False]"
    by (simp add: example_defs get_is_init_def)
  show ?thesis
    using r ev f0
      is_init_never_reset [of ext_ok fresh_tree empty_world
        "fst (init_weights ext_ok fresh_tree empty_world)"
        "fst (snd (init_weights ext_ok fresh_tree empty_world))"
        "snd (snd (init_weights ext_ok fresh_tree empty_world))"]
      is_init_never_reset [of ext_ok "fst (snd (init_weights ext_ok fresh_tree empty_world))"
        "snd (snd (init_weights ext_ok fresh_tree empty_world))"
        "fst (init_weights ext_ok (fst (snd (init_weights ext_ok fresh_tree empty_world)))
           (snd (snd (init_weights ext_ok fresh_tree empty_world))))"
        "fst (snd (init_weights ext_ok (fst (snd (init_weights ext_ok fresh_tree empty_world)))
           (snd (snd (init_weights ext_ok fresh_tree empty_world)))))"
        "snd (snd (init_weights ext_ok (fst (snd (init_weights ext_ok fresh_tree empty_world)))
           (snd (snd (init_weights ext_ok fresh_tree empty_world)))))"]
    by simp
qed

subsection \<open>C9: the default description and the snapshot\<close>

text \<open>
  C9. The installation at the start of a top-level call on the module \<open>m\<close> gives every
  parameter \<open>p\<close> of every module \<open>d\<close> of the tree an entry whose description names the class
  of \<open>m\<close>, not that of \<open>d\<close>, and whose snapshot is the mean of the data that \<open>p\<close> has when the
  call starts. The installation adds no event and changes no parameter; the rest of the
  call runs on the state it leaves, and allocates no further dictionary, so that no rule is
  applied before the snapshot and the snapshot is taken once.
\<close>

theorem install_snapshot:
  assumes "install x m w = (m1, w1)" and "d \<in> set (modules m)" and "p \<in> set (params d)"
    and "base m \<noteq> None" and "params_init_info m = None"
  shows "dicts (heap w1) (next_dict w) (pid p) =
           Some \<lparr>init_info = unchanged_msg (cls m),
                 tmp_mean_value = mean x (tensors (heap w) (pid p))\<rparr> \<and>
         trace w1 = trace w \<and> tensors (heap w1) = tensors (heap w) \<and>
         init_weights x m w =
           (case init_weights x m1 w1 of
              (e, m2, w2) \<Rightarrow> if e \<noteq> None then (e, m2, w2) else finalize_init m2 w2) \<and>
         next_dict (snd (snd (init_weights x m1 w1))) = next_dict w1 \<and>
         next_dict (snd (snd (init_weights x m w))) = Suc (next_dict w)"
proof -
  have "pid p \<in> pid ` snd ` set (named_parameters m)"
    using assms(2,3) unfolding named_parameters_pids by blast
  then have "dicts (heap w1) (next_dict w) (pid p) =
           Some \<lparr>init_info = unchanged_msg (cls m),
                 tmp_mean_value = mean x (tensors (heap w) (pid p))\<rparr>"
    using install_dict [OF assms(1)] by simp
  moreover have "trace w1 = trace w \<and> tensors (heap w1) = tensors (heap w)"
    using install_world [OF assms(1)] by simp
  moreover have "init_weights x m w =
              (case init_weights x m1 w1 of
                 (e, m2, w2) \<Rightarrow> if e \<noteq> None then (e, m2, w2) else finalize_init m2 w2)"
    using init_weights_top [OF assms(4,5), of x w] assms(1) by simp
  moreover have "next_dict (snd (snd (init_weights x m1 w1))) = next_dict w1"
  proof -
    have "all_info (Some (next_dict w)) m1"
      using install_world [OF assms(1)] by (simp add: all_info_set_info)
    then show ?thesis
      using nested_all_info [of "next_dict w" m1 x w1 "fst (init_weights x m1 w1)"
          "fst (snd (init_weights x m1 w1))" "snd (snd (init_weights x m1 w1))"]
      by simp
  qed
  moreover have "next_dict (snd (snd (init_weights x m w))) = Suc (next_dict w)"
  proof -
    obtain e m' w' where r: "init_weights x m w = (e, m', w')" by (cases "init_weights x m w")
    from r assms(4,5) have "next_dict w' = Suc (next_dict w)"
    proof (cases rule: top_level_run)
      case (1 m1 w1 e2 m2 w2)
      show ?thesis
      proof (cases e2)
        case None
        then show ?thesis using 1(5,7) finalize_init_world [of m2 w2 e m' w'] by simp
      next
        case (Some err)
        then show ?thesis using 1(5,6) by simp
      qed
    qed
    then show ?thesis using r by simp
  qed
  ultimately show ?thesis by blast
qed

theorem install_snapshot_witness:
  "base fresh_tree \<noteq> None \<and> params_init_info fresh_tree = None \<and>
   dicts (heap (snd (install ext_ok fresh_tree (empty_world\<lparr>heap := (heap empty_world)\<lparr>tensors := (\<lambda>q. int q)\<rparr>\<rparr>))))
      0 (pid bias) =
     Some \<lparr>init_info = ''The value is unchanged before and after `init_weights` of Root'',
           tmp_mean_value = 11\<rparr> \<and>
   cls (base_module 1 ''Child'' normal_rule False [bias] []) = ''Child'' \<and>
   trace (snd (install ext_ok fresh_tree (empty_world\<lparr>heap := (heap empty_world)\<lparr>tensors := (\<lambda>q. int q)\<rparr>\<rparr>))) = [] \<and>
   next_dict (snd (snd (init_weights ext_ok fresh_tree
     (empty_world\<lparr>heap := (heap empty_world)\<lparr>tensors := (\<lambda>q. int q)\<rparr>\<rparr>)))) = 1"
proof -
  let ?w = "empty_world\<lparr>heap := (heap empty_world)\<lparr>tensors := (\<lambda>q. int q)\<rparr>\<rparr>"
  have i: "install ext_ok fresh_tree ?w = (fst (install ext_ok fresh_tree ?w), snd (install ext_ok fresh_tree ?w))"
    by simp
  have d: "base_module 1 ''Child'' normal_rule False [bias] [] \<in> set (modules fresh_tree)"
    by (simp add: example_defs)
  have p: "bias \<in> set (params (base_module 1 ''Child'' normal_rule False [bias] []))"
    by (simp add: example_defs)
  have h: "base fresh_tree \<noteq> None" "params_init_info fresh_tree = None"
    by (simp_all add: example_defs)
  note T = install_snapshot [OF i d p h]
  have v: "next_dict ?w = 0" "cls fresh_tree = ''Root''" "trace ?w = []"
    "mean ext_ok (tensors (heap ?w) (pid bias)) = 11"
    "cls (base_module 1 ''Child'' normal_rule False [bias] []) = ''Child''"
    by (simp_all add: example_defs)
  have A: "dicts (heap (snd (install ext_ok fresh_tree ?w))) (next_dict ?w) (pid bias) =
           Some \<lparr>init_info = unchanged_msg (cls fresh_tree),
                 tmp_mean_value = mean ext_ok (tensors (heap ?w) (pid bias))\<rparr>"
    using T by blast
  have B: "trace (snd (install ext_ok fresh_tree ?w)) = trace ?w"
    using T by blast
  have C: "next_dict (snd (snd (init_weights ext_ok fresh_tree ?w))) = Suc (next_dict ?w)"
    using T by blast
  show ?thesis
    using A B C h unfolding v by (simp add: unchanged_msg_def)
qed

subsection \<open>C10: the constructor copies \<^verbatim>\<open>init_cfg\<close>\<close>

text \<open>
  C10. When the argument \<^verbatim>\<open>init_cfg\<close> denotes the value \<open>t\<close> in the heap of the caller (a finite
  nesting of dictionaries and lists within the recursion limit, or an atomic value such as
  \<^verbatim>\<open>None\<close>), the constructor returns; it sets \<^verbatim>\<open>_is_init\<close> to false, leaves the objects of the
  caller as they are, and stores a reference that denotes \<open>t\<close>, the value of the argument at
  construction. In every later heap in which the objects allocated by the constructor are
  untouched, whatever has been done to the objects of the caller, the stored reference still
  denotes \<open>t\<close>, and a call of \<^verbatim>\<open>init_weights\<close> on a module with these attributes gives the result
  it gives right after construction.
\<close>

theorem constructor_deep_copies:
  assumes "read limit h cfg = Some t"
  shows "\<exists>v h'. BaseModule_init limit cfg h = Inr ((v, False), h') \<and>
     take (length h) h' = h \<and>
     read limit h' v = Some t \<and>
     (\<forall>h''. kept_copy h h' h'' \<longrightarrow>
        read limit h'' v = Some t \<and>
        attrs_at limit h'' (v, False) = Some \<lparr>init_cfg = t, is_init = False\<rparr> \<and>
        init_weights x (Module i l c (attrs_at limit h'' (v, False)) a ps cs) w =
        init_weights x (Module i l c (attrs_at limit h' (v, False)) a ps cs) w)"
proof -
  obtain v ext where d: "deepcopy limit cfg h = Inr (v, h @ ext)"
      and k: "\<forall>h''. kept_copy h (h @ ext) h'' \<longrightarrow> read limit h'' v = Some t"
    using deepcopy_correct [OF assms] by blast
  have b: "BaseModule_init limit cfg h = Inr ((v, False), h @ ext)"
    using d by (simp add: BaseModule_init_def)
  have r: "read limit (h @ ext) v = Some t"
    using k kept_copy_refl by blast
  have at: "attrs_at limit (h @ ext) (v, False) = Some \<lparr>init_cfg = t, is_init = False\<rparr>"
    using r by (simp add: attrs_at_def)
  have all: "\<forall>h''. kept_copy h (h @ ext) h'' \<longrightarrow>
        read limit h'' v = Some t \<and>
        attrs_at limit h'' (v, False) = Some \<lparr>init_cfg = t, is_init = False\<rparr> \<and>
        init_weights x (Module i l c (attrs_at limit h'' (v, False)) a ps cs) w =
        init_weights x (Module i l c (attrs_at limit (h @ ext) (v, False)) a ps cs) w"
  proof (intro allI impI)
    fix h'' assume "kept_copy h (h @ ext) h''"
    then have "read limit h'' v = Some t" using k by blast
    then have "attrs_at limit h'' (v, False) = Some \<lparr>init_cfg = t, is_init = False\<rparr>"
      by (simp add: attrs_at_def)
    then show "read limit h'' v = Some t \<and>
        attrs_at limit h'' (v, False) = Some \<lparr>init_cfg = t, is_init = False\<rparr> \<and>
        init_weights x (Module i l c (attrs_at limit h'' (v, False)) a ps cs) w =
        init_weights x (Module i l c (attrs_at limit (h @ ext) (v, False)) a ps cs) w"
      using \<open>read limit h'' v = Some t\<close> at by simp
  qed
  show ?thesis
  proof (intro exI conjI)
    show "BaseModule_init limit cfg h = Inr ((v, False), h @ ext)" by (rule b)
    show "take (length h) (h @ ext) = h" by simp
    show "read limit (h @ ext) v = Some t" by (rule r)
    show "\<forall>h''. kept_copy h (h @ ext) h'' \<longrightarrow>
        read limit h'' v = Some t \<and>
        attrs_at limit h'' (v, False) = Some \<lparr>init_cfg = t, is_init = False\<rparr> \<and>
        init_weights x (Module i l c (attrs_at limit h'' (v, False)) a ps cs) w =
        init_weights x (Module i l c (attrs_at limit (h @ ext) (v, False)) a ps cs) w"
      by (rule all)
  qed
qed

theorem constructor_deep_copies_witness:
  "read 3 caller_heap (HRef 1) = Some (PList [pretrained_rule]) \<and>
   BaseModule_init 3 (HRef 1) caller_heap = Inr ((HRef 3, False), constructed_heap) \<and>
   kept_copy caller_heap constructed_heap mutated_heap \<and>
   read 3 mutated_heap (HRef 1) = Some (PList [PDict [(''type'', PStr ''Constant'')]]) \<and>
   read 3 mutated_heap (HRef 3) = Some (PList [pretrained_rule]) \<and>
   attrs_at 3 mutated_heap (HRef 3, False) =
     Some \<lparr>init_cfg = PList [pretrained_rule], is_init = False\<rparr>"
proof -
  have r: "read 3 caller_heap (HRef 1) = Some (PList [pretrained_rule])"
    by (simp add: caller_heap_def pretrained_rule_def eval_nat_numeral)
  have b: "BaseModule_init 3 (HRef 1) caller_heap = Inr ((HRef 3, False), constructed_heap)"
    by (simp add: BaseModule_init_def constructed_heap_def caller_heap_def eval_nat_numeral)
  have k: "kept_copy caller_heap constructed_heap mutated_heap"
    by (simp add: kept_copy_def mutated_heap_def constructed_heap_def caller_heap_def
        eval_nat_numeral upt_rec)
  have m: "read 3 mutated_heap (HRef 1) = Some (PList [PDict [(''type'', PStr ''Constant'')]])"
    by (simp add: mutated_heap_def constructed_heap_def caller_heap_def eval_nat_numeral)
  obtain v h' where t: "BaseModule_init 3 (HRef 1) caller_heap = Inr ((v, False), h')"
      "\<forall>h''. kept_copy caller_heap h' h'' \<longrightarrow>
        read 3 h'' v = Some (PList [pretrained_rule]) \<and>
        attrs_at 3 h'' (v, False) = Some \<lparr>init_cfg = PList [pretrained_rule], is_init = False\<rparr>"
    using constructor_deep_copies [OF r, where x = ext_ok and i = 0 and l = "''Root''"
        and c = "''Root''" and a = None and ps = "[]" and cs = "[]" and w = empty_world]
    by blast
  have "v = HRef 3" "h' = constructed_heap"
    using t(1) b by simp_all
  then show ?thesis
    using t(2) r b k m by blast
qed

end
